(* ===== verification/Prelude.thy ===== *)
theory Prelude
  imports Main "HOL-Library.Word" "HOL-Library.Sublist"
begin

text \<open>
  Shared vocabulary of the development: bytes, big-endian encodings, Rust slicing, faults
  (an \<open>io::Error\<close> or a panic) as values, and the generic list lemmas the components use.
  A \<open>usize\<close> that counts bytes held in memory is a \<open>nat\<close>; a \<open>u64\<close> that comes from the
  wire or is a counter is a 64-bit word.
\<close>

section \<open>Machine types\<close>

type_synonym byte = "8 word"
type_synonym bytes = "byte list"
type_synonym u16 = "16 word"
type_synonym u64 = "64 word"

named_theorems be_simps \<open>big-endian encodings and their lengths\<close>
named_theorems fault_splits \<open>case splits on results that may be faults\<close>

section \<open>Faults\<close>

text \<open>The kinds of \<open>std::io::ErrorKind\<close> the modelled code produces or inspects.\<close>

datatype io_kind =
    WouldBlock
  | UnexpectedEof
  | WriteZero
  | InvalidInput
  | InvalidData
  | ConnectionRefused
  | ConnectionAborted
  | ConnectionReset
  | NotConnected
  | BrokenPipe
  | TimedOut
  | NotFound
  | PermissionDenied
  | AlreadyExists
  | Interrupted
  | Unsupported
  | OtherKind

text \<open>
  A Rust function that returns \<open>io::Result<T>\<close> yields a value, an error, or does not return
  because it panics.
\<close>

datatype fault = IoError io_kind | Panic

type_synonym 'a io = "fault + 'a"

abbreviation Ok :: "'a \<Rightarrow> 'e + 'a" where
  "Ok \<equiv> Inr"

abbreviation Err :: "io_kind \<Rightarrow> 'a io" where
  "Err k \<equiv> Inl (IoError k)"

abbreviation panic :: "'a io" where
  "panic \<equiv> Inl Panic"

text \<open>The \<open>?\<close> operator on results without state.\<close>

definition bind_io :: "('e + 'a) \<Rightarrow> ('a \<Rightarrow> 'e + 'b) \<Rightarrow> 'e + 'b" where
  "bind_io r f = (case r of Inl e \<Rightarrow> Inl e | Inr x \<Rightarrow> f x)"

lemma bind_io_simps [simp]:
  "bind_io (Inl e) f = Inl e"
  "bind_io (Inr x) f = f x"
  by (simp_all add: bind_io_def)

lemma bind_io_Inr_iff: "bind_io r f = Inr y \<longleftrightarrow> (\<exists>x. r = Inr x \<and> f x = Inr y)"
  by (cases r) auto

lemma bind_io_assoc: "bind_io (bind_io r f) g = bind_io r (\<lambda>x. bind_io (f x) g)"
  by (cases r) auto

section \<open>Slices\<close>

text \<open>\<open>&xs[lo..hi]\<close>: panics unless \<open>lo <= hi <= xs.len()\<close>.\<close>

definition slice :: "nat \<Rightarrow> nat \<Rightarrow> 'a list \<Rightarrow> 'a list io" where
  "slice lo hi xs =
     (if lo \<le> hi \<and> hi \<le> length xs then Ok (take (hi - lo) (drop lo xs)) else panic)"

lemma slice_ok [simp]:
  "lo \<le> hi \<Longrightarrow> hi \<le> length xs \<Longrightarrow> slice lo hi xs = Ok (take (hi - lo) (drop lo xs))"
  by (simp add: slice_def)

lemma slice_panic: "hi < lo \<or> length xs < hi \<Longrightarrow> slice lo hi xs = panic"
  by (auto simp: slice_def)

section \<open>Big-endian encodings\<close>

text \<open>\<open>be_bytes n v\<close> is the low \<open>n\<close> bytes of \<open>v\<close>, most significant first.\<close>

fun be_bytes :: "nat \<Rightarrow> nat \<Rightarrow> bytes" where
  "be_bytes 0 v = []"
| "be_bytes (Suc n) v = be_bytes n (v div 256) @ [word_of_nat (v mod 256)]"

definition be_nat :: "bytes \<Rightarrow> nat" where
  "be_nat bs = foldl (\<lambda>a b. 256 * a + unat b) 0 bs"

lemma length_be_bytes [simp, be_simps]: "length (be_bytes n v) = n"
  by (induction n arbitrary: v) auto

lemma be_nat_Nil [simp]: "be_nat [] = 0"
  by (simp add: be_nat_def)

lemma be_nat_snoc [simp]: "be_nat (bs @ [b]) = 256 * be_nat bs + unat b"
  by (simp add: be_nat_def)

lemma unat_byte_of_nat_mod [simp]: "unat (word_of_nat (v mod 256) :: byte) = v mod 256"
  by (simp add: unat_of_nat)

lemma be_nat_be_bytes [be_simps]: "be_nat (be_bytes n v) = v mod 256 ^ n"
proof (induction n arbitrary: v)
  case 0
  then show ?case by simp
next
  case (Suc n)
  have "be_nat (be_bytes (Suc n) v) = 256 * (v div 256 mod 256 ^ n) + v mod 256"
    using Suc.IH [of "v div 256"] by simp
  also have "\<dots> = v mod (256 * 256 ^ n)"
    by (simp add: mod_mult2_eq)
  finally show ?case by simp
qed

lemma be_nat_bound: "be_nat bs < 256 ^ length bs"
proof (induction bs rule: rev_induct)
  case Nil
  then show ?case by simp
next
  case (snoc b bs)
  have "unat b < 256" using unsigned_less [of b] by simp
  with snoc show ?case by simp
qed

lemma be_bytes_be_nat: "be_bytes (length bs) (be_nat bs) = bs"
proof (induction bs rule: rev_induct)
  case Nil
  then show ?case by simp
next
  case (snoc b bs)
  have b: "unat b < 256" using unsigned_less [of b] by simp
  then have "(256 * be_nat bs + unat b) div 256 = be_nat bs"
    and "(256 * be_nat bs + unat b) mod 256 = unat b"
    by simp_all
  with snoc show ?case by simp
qed

text \<open>\<open>u64::to_be_bytes\<close> and \<open>u64::from_be_bytes\<close>.\<close>

definition u64_to_be_bytes :: "u64 \<Rightarrow> bytes" where
  "u64_to_be_bytes w = be_bytes 8 (unat w)"

definition u64_from_be_bytes :: "bytes \<Rightarrow> u64" where
  "u64_from_be_bytes bs = word_of_nat (be_nat bs)"

lemma be_bytes_8:
  "be_bytes 8 v =
     [word_of_nat (v div 256 div 256 div 256 div 256 div 256 div 256 div 256 mod 256),
      word_of_nat (v div 256 div 256 div 256 div 256 div 256 div 256 mod 256),
      word_of_nat (v div 256 div 256 div 256 div 256 div 256 mod 256),
      word_of_nat (v div 256 div 256 div 256 div 256 mod 256),
      word_of_nat (v div 256 div 256 div 256 mod 256),
      word_of_nat (v div 256 div 256 mod 256),
      word_of_nat (v div 256 mod 256), word_of_nat (v mod 256)]"
proof -
  have "be_bytes 8 v = be_bytes (Suc (Suc (Suc (Suc (Suc (Suc (Suc (Suc 0)))))))) v"
    by (rule arg_cong [of _ _ "\<lambda>n. be_bytes n v"]) simp
  then show ?thesis by (simp only: be_bytes.simps append.simps)
qed

lemma length_u64_to_be_bytes [simp, be_simps]: "length (u64_to_be_bytes w) = 8"
  by (simp add: u64_to_be_bytes_def)

lemma u64_from_to_be_bytes [simp, be_simps]: "u64_from_be_bytes (u64_to_be_bytes w) = w"
proof -
  have "unat w < 256 ^ 8"
    using unsigned_less [of w] by simp
  then show ?thesis
    by (simp add: u64_from_be_bytes_def u64_to_be_bytes_def be_nat_be_bytes)
qed

lemma u64_to_from_be_bytes [be_simps]:
  assumes "length bs = 8"
  shows "u64_to_be_bytes (u64_from_be_bytes bs) = bs"
proof -
  have "be_nat bs < 2 ^ 64"
    using be_nat_bound [of bs] assms by simp
  then have "unat (word_of_nat (be_nat bs) :: u64) = be_nat bs"
    by (simp add: unat_of_nat)
  with be_bytes_be_nat [of bs] assms show ?thesis
    by (simp add: u64_from_be_bytes_def u64_to_be_bytes_def)
qed

lemma unat_u64_of_nat: "n < 2 ^ 64 \<Longrightarrow> unat (word_of_nat n :: u64) = n"
  by (simp add: unat_of_nat)

text \<open>\<open>u64::saturating_sub\<close>.\<close>

definition saturating_sub :: "u64 \<Rightarrow> u64 \<Rightarrow> u64" where
  "saturating_sub a b = (if b \<le> a then a - b else 0)"

lemma unat_saturating_sub [simp]: "unat (saturating_sub a b) = unat a - unat b"
  by (auto simp: saturating_sub_def unat_sub word_le_nat_alt)

section \<open>Lists\<close>

text \<open>The total number of bytes of a list of byte strings.\<close>

abbreviation total_len :: "'a list list \<Rightarrow> nat" where
  "total_len xss \<equiv> sum_list (map length xss)"

lemma total_len_drop_le: "total_len (drop n xss) \<le> total_len xss"
  by (induction xss arbitrary: n) (auto simp: drop_Cons' trans_le_add2)

lemma total_len_append [simp]: "total_len (xss @ yss) = total_len xss + total_len yss"
  by simp

lemma suffix_snoc_both: "suffix xs ys \<Longrightarrow> suffix (xs @ [a]) (ys @ [a])"
  by (auto simp: suffix_def)

lemma suffix_imp_drop: "suffix ys xs \<Longrightarrow> ys = drop (length xs - length ys) xs"
  by (auto simp: suffix_def)

end
