(* ===== verification/Frame.thy ===== *)
theory Frame
  imports Prelude
begin

text \<open>
  The length-prefixed frame of \<open>distant-core/src/net/common/transport/framed/frame.rs\<close>:
  \<open>{len}{item}\<close> with \<open>len\<close> a big-endian \<open>u64\<close>. The \<open>Cow\<close> of the source only tracks who
  owns the bytes; a frame is its item here. \<open>frame_read\<close> is the release build, where
  \<open>item_len + HEADER_SIZE\<close> wraps; \<open>frame_read_debug\<close> is the build with overflow checks.
\<close>

record frame =
  item :: bytes

definition header_size :: nat where
  "header_size = 8"

definition frame_new :: "bytes \<Rightarrow> frame" where
  "frame_new bs = \<lparr>item = bs\<rparr>"

definition frame_empty :: frame where
  "frame_empty = frame_new []"

definition frame_len :: "frame \<Rightarrow> nat" where
  "frame_len f = length (item f)"

definition frame_is_empty :: "frame \<Rightarrow> bool" where
  "frame_is_empty f \<longleftrightarrow> item f = []"

definition frame_is_nonempty :: "frame \<Rightarrow> bool" where
  "frame_is_nonempty f \<longleftrightarrow> \<not> frame_is_empty f"

text \<open>\<open>Frame::write\<close> appends to \<open>dst\<close>; \<open>len as u64\<close> truncates to 64 bits.\<close>

definition frame_write :: "frame \<Rightarrow> bytes \<Rightarrow> bytes" where
  "frame_write f dst = dst @ u64_to_be_bytes (word_of_nat (frame_len f)) @ item f"

definition frame_to_bytes :: "frame \<Rightarrow> bytes" where
  "frame_to_bytes f = frame_write f []"

definition frame_extend :: "frame \<Rightarrow> bytes \<Rightarrow> frame" where
  "frame_extend f bs = f\<lparr>item := item f @ bs\<rparr>"

text \<open>\<open>Frame::read\<close>: the frame found, if any, and the buffer after the call.\<close>

definition frame_read :: "bytes \<Rightarrow> (frame option \<times> bytes) io" where
  "frame_read src =
     (if length src \<le> header_size then Ok (None, src)
      else
        let item_len = u64_from_be_bytes (take header_size src);
            end = unat (item_len + word_of_nat header_size)
        in if length src < end then Ok (None, src)
           else bind_io (slice header_size end src)
                  (\<lambda>it. Ok (Some (frame_new it), drop end src)))"

definition frame_read_debug :: "bytes \<Rightarrow> (frame option \<times> bytes) io" where
  "frame_read_debug src =
     (if length src \<le> header_size then Ok (None, src)
      else
        let item_len = unat (u64_from_be_bytes (take header_size src))
        in if 2 ^ 64 \<le> item_len + header_size then panic
           else if length src < item_len + header_size then Ok (None, src)
           else bind_io (slice header_size (header_size + item_len) src)
                  (\<lambda>it. Ok (Some (frame_new it), drop (header_size + item_len) src)))"

definition frame_available :: "bytes \<Rightarrow> bool io" where
  "frame_available src = bind_io (frame_read src) (\<lambda>(f, _). Ok (f \<noteq> None))"

section \<open>Basic facts\<close>

lemma item_frame_new [simp]: "item (frame_new bs) = bs"
  by (simp add: frame_new_def)

lemma item_frame_empty [simp]: "item frame_empty = []"
  by (simp add: frame_empty_def)

lemma frame_new_item [simp]: "frame_new (item f) = f"
  by (simp add: frame_new_def)

lemma frame_len_new [simp]: "frame_len (frame_new bs) = length bs"
  by (simp add: frame_len_def)

lemma frame_is_nonempty_iff [simp]: "frame_is_nonempty f \<longleftrightarrow> item f \<noteq> []"
  by (simp add: frame_is_nonempty_def frame_is_empty_def)

lemma frame_write_append: "frame_write f dst = dst @ frame_to_bytes f"
  by (simp add: frame_write_def frame_to_bytes_def)

lemma length_frame_to_bytes [simp]: "length (frame_to_bytes f) = header_size + frame_len f"
  by (simp add: frame_to_bytes_def frame_write_def frame_len_def header_size_def)

lemma frame_to_bytes_not_Nil [simp]: "frame_to_bytes f \<noteq> []" "[] \<noteq> frame_to_bytes f"
proof -
  show "frame_to_bytes f \<noteq> []"
    using length_frame_to_bytes [of f] by (simp add: header_size_def flip: length_0_conv)
  then show "[] \<noteq> frame_to_bytes f" by metis
qed

text \<open>The largest item whose length field does not overflow the header addition.\<close>

definition frame_fits :: "frame \<Rightarrow> bool" where
  "frame_fits f \<longleftrightarrow> frame_len f + header_size < 2 ^ 64"

lemma unat_add_header:
  assumes "unat (n::u64) + header_size < 2 ^ 64"
  shows "unat (n + word_of_nat header_size) = unat n + header_size"
  using assms by (simp add: header_size_def unat_word_ariths)

lemma unat_add_header_wraps:
  assumes "2 ^ 64 \<le> unat (n::u64) + header_size"
  shows "unat (n + word_of_nat header_size) < header_size"
proof -
  have "unat n < 2 ^ 64" using unsigned_less [of n] by simp
  with assms have "(unat n + 8) mod 2 ^ 64 = unat n + 8 - 2 ^ 64"
    by (simp add: header_size_def mod_if)
  moreover have "unat n + 8 - 2 ^ 64 < 8"
    using \<open>unat n < 2 ^ 64\<close> by simp
  ultimately show ?thesis
    by (simp add: header_size_def unat_word_ariths)
qed

text \<open>Both builds agree, on every input: a wrapped sum fails the slice instead.\<close>

lemma frame_read_eq_debug: "frame_read src = frame_read_debug src"
proof (cases "length src \<le> header_size")
  case True
  then show ?thesis by (simp add: frame_read_def frame_read_debug_def)
next
  case False
  let ?n = "u64_from_be_bytes (take header_size src)"
  show ?thesis
  proof (cases "2 ^ 64 \<le> unat ?n + header_size")
    case True
    with unat_add_header_wraps [OF True] False show ?thesis
      by (simp add: frame_read_def frame_read_debug_def Let_def slice_def)
  next
    case fits: False
    then have "unat (?n + word_of_nat header_size) = unat ?n + header_size"
      by (intro unat_add_header) simp
    with False fits show ?thesis
      by (simp add: frame_read_def frame_read_debug_def Let_def add.commute)
  qed
qed

lemma frame_header_of_to_bytes:
  "frame_len f < 2 ^ 64 \<Longrightarrow> unat (u64_from_be_bytes (take header_size (frame_to_bytes f @ rest))) = frame_len f"
  by (simp add: frame_to_bytes_def frame_write_def header_size_def unat_u64_of_nat)

lemma frame_read_to_bytes:
  assumes "frame_fits f" and "item f \<noteq> [] \<or> rest \<noteq> []"
  shows "frame_read (frame_to_bytes f @ rest) = Ok (Some f, rest)"
proof -
  have len: "frame_len f < 2 ^ 64" using assms(1) by (simp add: frame_fits_def)
  have "header_size < length (frame_to_bytes f @ rest)"
    using assms(2) by (auto simp: frame_len_def)
  moreover have "take (frame_len f) (drop header_size (frame_to_bytes f @ rest)) = item f"
    by (simp add: frame_to_bytes_def frame_write_def header_size_def frame_len_def)
  ultimately show ?thesis
    using assms(1) frame_header_of_to_bytes [OF len, of rest]
    by (simp add: frame_read_eq_debug frame_read_debug_def Let_def frame_fits_def frame_len_def
          frame_new_def)
qed


section \<open>Reading is parsing\<close>

lemma frame_read_None:
  "frame_read src = Ok (None, src') \<Longrightarrow> src' = src"
  by (auto simp: frame_read_eq_debug frame_read_debug_def Let_def bind_io_Inr_iff split: if_splits)

lemma frame_read_no_io_error: "frame_read src \<noteq> Err k"
  by (auto simp: frame_read_eq_debug frame_read_debug_def Let_def slice_def)

lemma frame_read_SomeD:
  assumes "frame_read src = Ok (Some f, rest)"
  shows "src = frame_to_bytes f @ rest" and "frame_fits f" and "header_size < length src"
proof -
  let ?h = "take header_size src"
  let ?n = "unat (u64_from_be_bytes ?h)"
  from assms have len: "header_size < length src" and fit: "?n + header_size < 2 ^ 64"
    and enough: "?n + header_size \<le> length src"
    and f: "f = frame_new (take ?n (drop header_size src))"
    and rest: "rest = drop (header_size + ?n) src"
    by (auto simp: frame_read_eq_debug frame_read_debug_def Let_def bind_io_Inr_iff
          split: if_splits)
  have fl: "frame_len f = ?n" using f enough by simp
  have "u64_to_be_bytes (word_of_nat ?n) = ?h"
    using len by (simp add: u64_to_from_be_bytes header_size_def)
  then have "frame_to_bytes f = ?h @ take ?n (drop header_size src)"
    using fl f by (simp add: frame_to_bytes_def frame_write_def)
  then show "src = frame_to_bytes f @ rest"
    using rest by (simp add: drop_drop [symmetric] add.commute [of header_size] del: drop_drop)
  show "frame_fits f" using fl fit by (simp add: frame_fits_def)
  show "header_size < length src" by (rule len)
qed

lemma frame_read_prefix:
  assumes "frame_fits f" and "k < header_size + frame_len f"
  shows "frame_read (take k (frame_to_bytes f)) = Ok (None, take k (frame_to_bytes f))"
proof (cases "k \<le> header_size")
  case True
  then show ?thesis by (simp add: frame_read_def)
next
  case False
  have len: "frame_len f < 2 ^ 64" using assms(1) by (simp add: frame_fits_def)
  have "take header_size (take k (frame_to_bytes f)) = take header_size (frame_to_bytes f)"
    using False by simp
  moreover have "unat (u64_from_be_bytes (take header_size (frame_to_bytes f))) = frame_len f"
    using frame_header_of_to_bytes [OF len, of "[]"] by simp
  ultimately show ?thesis
    using False assms
    by (simp add: frame_read_eq_debug frame_read_debug_def Let_def frame_fits_def)
qed

text \<open>Bytes of which no prefix holds a frame.\<close>

definition incomplete :: "bytes \<Rightarrow> bool" where
  "incomplete bs \<longleftrightarrow> (\<forall>j \<le> length bs. frame_read (take j bs) = Ok (None, take j bs))"

lemma incompleteD: "incomplete bs \<Longrightarrow> bs = xs @ ys \<Longrightarrow> frame_read xs = Ok (None, xs)"
  by (auto simp: incomplete_def dest!: spec [of _ "length xs"])

lemma incomplete_prefix:
  assumes "frame_fits f" and "k < header_size + frame_len f \<or> item f = []"
  shows "incomplete (take k (frame_to_bytes f))"
  unfolding incomplete_def
proof (intro allI impI)
  fix j
  assume j: "j \<le> length (take k (frame_to_bytes f))"
  then have jk: "take j (take k (frame_to_bytes f)) = take j (frame_to_bytes f)" by simp
  show "frame_read (take j (take k (frame_to_bytes f))) = Ok (None, take j (take k (frame_to_bytes f)))"
  proof (cases "j \<le> header_size")
    case True
    then show ?thesis unfolding jk by (simp add: frame_read_def)
  next
    case False
    with j assms(2) have "j < header_size + frame_len f" by (auto simp: frame_len_def)
    with frame_read_prefix [OF assms(1)] show ?thesis unfolding jk by blast
  qed
qed

lemma frame_read_of_stream:
  assumes "frame_fits g" and "item g \<noteq> []" and "buf @ later = frame_to_bytes g @ rest"
  shows "frame_read buf =
     (if length buf < header_size + frame_len g then Ok (None, buf)
      else Ok (Some g, drop (header_size + frame_len g) buf))"
proof (cases "length buf < header_size + frame_len g")
  case True
  from assms(3) have "take (length buf) (buf @ later) = take (length buf) (frame_to_bytes g @ rest)"
    by simp
  with True have "buf = take (length buf) (frame_to_bytes g)" by simp
  with frame_read_prefix [OF assms(1) True] True show ?thesis by simp
next
  case False
  from assms(3) have "take (header_size + frame_len g) (buf @ later) = frame_to_bytes g"
    by simp
  with False have "buf = frame_to_bytes g @ drop (header_size + frame_len g) buf"
    by (metis append_take_drop_id not_less take_append take_0 append_Nil2 diff_is_0_eq)
  with frame_read_to_bytes [OF assms(1)] assms(2) False show ?thesis by metis
qed

section \<open>Properties\<close>

text \<open>
  C3: \<open>Frame::read\<close> parses exactly what \<open>Frame::write\<close> produces: it returns a frame and a
  remainder precisely when the buffer is longer than a header and starts with the bytes
  written for that frame, whose length field does not overflow.
\<close>

theorem frame_read_iff_written:
  "frame_read src = Ok (Some f, rest) \<longleftrightarrow>
     src = frame_write f [] @ rest \<and> frame_len f + header_size < 2 ^ 64 \<and> header_size < length src"
proof
  assume "frame_read src = Ok (Some f, rest)"
  then show "src = frame_write f [] @ rest \<and> frame_len f + header_size < 2 ^ 64 \<and> header_size < length src"
    using frame_read_SomeD [of src f rest] by (simp add: frame_to_bytes_def frame_fits_def)
next
  assume *: "src = frame_write f [] @ rest \<and> frame_len f + header_size < 2 ^ 64 \<and> header_size < length src"
  then have "item f \<noteq> [] \<or> rest \<noteq> []"
    by (auto simp: frame_to_bytes_def [symmetric] frame_len_def)
  with * show "frame_read src = Ok (Some f, rest)"
    using frame_read_to_bytes [of f rest] by (simp add: frame_to_bytes_def frame_fits_def)
qed

text \<open>
  C4: the only way \<open>Frame::read\<close> fails is a panic, in the release build (wrapping addition) and
  in the debug build (checked addition) alike, and it panics exactly on the buffers, longer
  than a header, whose big-endian length field exceeds \<open>u64::MAX - 8\<close>: nine bytes from the
  peer are enough.
\<close>

theorem frame_read_panics_iff:
  "(frame_read src = Inl e \<longleftrightarrow>
      e = Panic \<and> 8 < length src \<and> 2 ^ 64 - 8 \<le> unat (u64_from_be_bytes (take 8 src)))
   \<and> frame_read_debug src = frame_read src"
  by (auto simp: frame_read_eq_debug frame_read_debug_def Let_def header_size_def)

end
