(* ===== verification/Backup.thy ===== *)
theory Backup
  imports Frame
begin

text \<open>
  The store of outgoing frames kept for a reconnect,
  \<open>distant-core/src/net/common/transport/framed/backup.rs\<close>. Sizes in memory are \<open>nat\<close> with
  an underflowing subtraction written as a panic; the frame counters are \<open>u64\<close>. The lemmas
  show the size accounting exact (so the subtraction never underflows), the eviction of
  \<open>push_frame\<close> minimal, and a frozen backup inert.
\<close>

record backup =
  max_backup_size :: nat
  current_backup_size :: nat
  frames :: "frame list"
  sent_cnt :: u64
  received_cnt :: u64
  frozen :: bool

definition default_max_backup_size :: nat where
  "default_max_backup_size = 256 * 1024 * 1024"

definition backup_new :: backup where
  "backup_new = \<lparr>max_backup_size = default_max_backup_size, current_backup_size = 0, frames = [],
     sent_cnt = 0, received_cnt = 0, frozen = False\<rparr>"

definition backup_clear :: "backup \<Rightarrow> backup" where
  "backup_clear b =
     (if \<not> frozen b
      then b\<lparr>current_backup_size := 0, frames := [], sent_cnt := 0, received_cnt := 0\<rparr>
      else b)"

definition is_frozen :: "backup \<Rightarrow> bool" where
  "is_frozen b = frozen b"

definition set_frozen :: "bool \<Rightarrow> backup \<Rightarrow> backup" where
  "set_frozen z b = b\<lparr>frozen := z\<rparr>"

definition freeze :: "backup \<Rightarrow> backup" where
  "freeze b = b\<lparr>frozen := True\<rparr>"

definition unfreeze :: "backup \<Rightarrow> backup" where
  "unfreeze b = b\<lparr>frozen := False\<rparr>"

definition set_max_backup_size :: "nat \<Rightarrow> backup \<Rightarrow> backup" where
  "set_max_backup_size n b = (if \<not> frozen b then b\<lparr>max_backup_size := n\<rparr> else b)"

definition increment_sent_cnt :: "backup \<Rightarrow> backup" where
  "increment_sent_cnt b = (if \<not> frozen b then b\<lparr>sent_cnt := sent_cnt b + 1\<rparr> else b)"

definition increment_received_cnt :: "backup \<Rightarrow> backup" where
  "increment_received_cnt b = (if \<not> frozen b then b\<lparr>received_cnt := received_cnt b + 1\<rparr> else b)"

definition set_received_cnt :: "u64 \<Rightarrow> backup \<Rightarrow> backup" where
  "set_received_cnt n b = (if \<not> frozen b then b\<lparr>received_cnt := n\<rparr> else b)"

text \<open>The eviction loop of \<open>push_frame\<close>, over the current size and the queue.\<close>

fun evict_front :: "nat \<Rightarrow> nat \<Rightarrow> frame list \<Rightarrow> (nat \<times> frame list) io" where
  "evict_front mx cur [] = (if mx < cur then Ok (0, []) else Ok (cur, []))"
| "evict_front mx cur (f # fs) =
     (if mx < cur
      then if cur < frame_len f then panic else evict_front mx (cur - frame_len f) fs
      else Ok (cur, f # fs))"

definition push_frame :: "frame \<Rightarrow> backup \<Rightarrow> backup io" where
  "push_frame f b =
     (if 0 < max_backup_size b \<and> \<not> frozen b
      then bind_io
             (evict_front (max_backup_size b) (current_backup_size b + frame_len f) (frames b @ [f]))
             (\<lambda>(cur, fs). Ok (b\<lparr>current_backup_size := cur, frames := fs\<rparr>))
      else Ok b)"

definition frame_cnt :: "backup \<Rightarrow> nat" where
  "frame_cnt b = length (frames b)"

fun pop_until :: "nat \<Rightarrow> nat \<Rightarrow> frame list \<Rightarrow> nat \<times> frame list" where
  "pop_until n cur [] = (cur, [])"
| "pop_until n cur (f # fs) =
     (if n < length (f # fs)
      then pop_until n (cur - min (frame_len f) cur) fs
      else (cur, f # fs))"

definition truncate_front :: "nat \<Rightarrow> backup \<Rightarrow> backup" where
  "truncate_front n b =
     (if \<not> frozen b
      then let (cur, fs) = pop_until n (current_backup_size b) (frames b)
           in b\<lparr>current_backup_size := cur, frames := fs\<rparr>
      else b)"

section \<open>Operations as events\<close>

datatype backup_op =
    Clear
  | SetFrozen bool
  | Freeze
  | Unfreeze
  | SetMaxBackupSize nat
  | IncrementSent
  | IncrementReceived
  | SetReceived u64
  | PushFrame frame
  | TruncateFront nat

fun backup_apply :: "backup_op \<Rightarrow> backup \<Rightarrow> backup io" where
  "backup_apply Clear b = Ok (backup_clear b)"
| "backup_apply (SetFrozen z) b = Ok (set_frozen z b)"
| "backup_apply Freeze b = Ok (freeze b)"
| "backup_apply Unfreeze b = Ok (unfreeze b)"
| "backup_apply (SetMaxBackupSize n) b = Ok (set_max_backup_size n b)"
| "backup_apply IncrementSent b = Ok (increment_sent_cnt b)"
| "backup_apply IncrementReceived b = Ok (increment_received_cnt b)"
| "backup_apply (SetReceived n) b = Ok (set_received_cnt n b)"
| "backup_apply (PushFrame f) b = push_frame f b"
| "backup_apply (TruncateFront n) b = Ok (truncate_front n b)"

fun backup_run :: "backup_op list \<Rightarrow> backup \<Rightarrow> backup io" where
  "backup_run [] b = Ok b"
| "backup_run (x # xs) b = bind_io (backup_apply x b) (backup_run xs)"

section \<open>The accounting invariant\<close>

abbreviation frames_len :: "frame list \<Rightarrow> nat" where
  "frames_len fs \<equiv> sum_list (map frame_len fs)"

definition backup_wf :: "backup \<Rightarrow> bool" where
  "backup_wf b \<longleftrightarrow> current_backup_size b = frames_len (frames b)"

lemma backup_wf_new [simp]: "backup_wf backup_new"
  by (simp add: backup_wf_def backup_new_def)

lemma evict_front_ok:
  assumes "cur = frames_len fs"
  shows "\<exists>n. evict_front mx cur fs = Ok (frames_len (drop n fs), drop n fs)
           \<and> n \<le> length fs \<and> frames_len (drop n fs) \<le> mx
           \<and> (\<forall>m < n. mx < frames_len (drop m fs))"
  using assms
proof (induction fs arbitrary: cur)
  case Nil
  then show ?case by simp
next
  case (Cons f fs)
  show ?case
  proof (cases "mx < cur")
    case True
    from Cons.prems have "cur - frame_len f = frames_len fs" by simp
    from Cons.IH [OF this] obtain n where
      n: "evict_front mx (cur - frame_len f) fs = Ok (frames_len (drop n fs), drop n fs)"
      and le: "n \<le> length fs" "frames_len (drop n fs) \<le> mx"
      and min: "\<forall>m < n. mx < frames_len (drop m fs)" by blast
    have "\<forall>m < Suc n. mx < frames_len (drop m (f # fs))"
      using min True Cons.prems by (auto simp: less_Suc_eq_0_disj)
    with n le True Cons.prems show ?thesis
      by (intro exI [of _ "Suc n"]) simp
  next
    case False
    with Cons.prems show ?thesis by (intro exI [of _ 0]) simp
  qed
qed

lemma pop_until_eq:
  assumes "cur = frames_len fs"
  shows "pop_until n cur fs = (frames_len (drop (length fs - n) fs), drop (length fs - n) fs)"
  using assms
proof (induction fs arbitrary: cur)
  case Nil
  then show ?case by simp
next
  case (Cons f fs)
  then show ?case by (auto simp: Suc_diff_le not_less)
qed

lemma push_frame_wf:
  assumes "backup_wf b"
  shows "\<exists>b'. push_frame f b = Ok b' \<and> backup_wf b'"
proof -
  from assms have "current_backup_size b + frame_len f = frames_len (frames b @ [f])"
    by (simp add: backup_wf_def)
  from evict_front_ok [OF this, of "max_backup_size b"] assms show ?thesis
    by (auto simp: push_frame_def backup_wf_def)
qed

lemma truncate_front_frames:
  assumes "backup_wf b" and "\<not> frozen b"
  shows "frames (truncate_front n b) = drop (length (frames b) - n) (frames b)"
    and "backup_wf (truncate_front n b)"
  using assms pop_until_eq [of "current_backup_size b" "frames b" n]
  by (simp_all add: truncate_front_def backup_wf_def)

lemma truncate_front_wf: "backup_wf b \<Longrightarrow> backup_wf (truncate_front n b)"
  by (cases "frozen b") (simp add: truncate_front_def, rule truncate_front_frames(2))

lemmas backup_op_defs =
  backup_clear_def set_frozen_def freeze_def unfreeze_def set_max_backup_size_def
  increment_sent_cnt_def increment_received_cnt_def set_received_cnt_def

lemma backup_apply_wf:
  assumes "backup_wf b"
  shows "\<exists>b'. backup_apply x b = Ok b' \<and> backup_wf b'"
proof (cases x)
  case (PushFrame f)
  then show ?thesis using push_frame_wf [OF assms] by simp
next
  case (TruncateFront n)
  then show ?thesis using truncate_front_wf [OF assms] by simp
qed (use assms in \<open>simp_all add: backup_op_defs backup_wf_def\<close>)

lemma backup_run_wf:
  "backup_wf b \<Longrightarrow> \<exists>b'. backup_run xs b = Ok b' \<and> backup_wf b'"
proof (induction xs arbitrary: b)
  case Nil
  then show ?case by simp
next
  case (Cons x xs)
  from backup_apply_wf [OF Cons.prems, of x] obtain b1
    where "backup_apply x b = Ok b1" and "backup_wf b1" by blast
  with Cons.IH [of b1] show ?case by simp
qed

section \<open>What the operations do\<close>

lemma frozen_apply:
  assumes "frozen b"
  shows "backup_apply x b =
     Ok (case x of SetFrozen z \<Rightarrow> b\<lparr>frozen := z\<rparr> | Unfreeze \<Rightarrow> b\<lparr>frozen := False\<rparr> | _ \<Rightarrow> b)"
  using assms by (cases x) (auto simp: backup_op_defs push_frame_def truncate_front_def)

lemma push_frame_spec:
  assumes "backup_wf b" and "\<not> frozen b" and "0 < max_backup_size b"
  shows "\<exists>n b'. push_frame f b = Ok b' \<and> frames b' = drop n (frames b @ [f])
           \<and> frames_len (frames b') \<le> max_backup_size b
           \<and> (\<forall>m < n. max_backup_size b < frames_len (drop m (frames b @ [f])))
           \<and> sent_cnt b' = sent_cnt b \<and> received_cnt b' = received_cnt b
           \<and> max_backup_size b' = max_backup_size b \<and> \<not> frozen b' \<and> backup_wf b'"
proof -
  from assms(1) have "current_backup_size b + frame_len f = frames_len (frames b @ [f])"
    by (simp add: backup_wf_def)
  from evict_front_ok [OF this, of "max_backup_size b"] obtain n where
    n: "evict_front (max_backup_size b) (current_backup_size b + frame_len f) (frames b @ [f]) =
          Ok (frames_len (drop n (frames b @ [f])), drop n (frames b @ [f]))"
    and le: "frames_len (drop n (frames b @ [f])) \<le> max_backup_size b"
    and min: "\<forall>m < n. max_backup_size b < frames_len (drop m (frames b @ [f]))" by blast
  from n assms(2,3) have "push_frame f b = Ok (b\<lparr>current_backup_size := frames_len (drop n (frames b @ [f])),
       frames := drop n (frames b @ [f])\<rparr>)"
    by (simp add: push_frame_def)
  with le min assms(2) show ?thesis
    by (intro exI [of _ n]) (simp add: backup_wf_def)
qed

lemma push_frame_frame:
  assumes "push_frame f b = Ok b'"
  shows "sent_cnt b' = sent_cnt b" and "received_cnt b' = received_cnt b"
    and "frozen b' = frozen b" and "max_backup_size b' = max_backup_size b"
  using assms by (auto simp: push_frame_def bind_io_Inr_iff split: if_splits prod.splits)

lemma push_frame_suffix:
  assumes "backup_wf b" and "push_frame f b = Ok b'" and "\<not> frozen b" and "0 < max_backup_size b"
  shows "suffix (frames b') (frames b @ [f])"
proof -
  from push_frame_spec [OF assms(1,3,4), of f] assms(2)
  obtain n where "frames b' = drop n (frames b @ [f])" by auto
  then show ?thesis by (simp only: suffix_drop)
qed

section \<open>Properties\<close>


text \<open>
  C6: \<open>push_frame\<close> on an unfrozen backup with a positive limit appends the frame and evicts
  from the front the fewest frames that bring the total within the limit; the counters do not
  change.
\<close>

theorem push_frame_evicts_least:
  assumes "backup_run xs backup_new = Ok b" and "\<not> frozen b" and "0 < max_backup_size b"
  shows "\<exists>n b'. push_frame f b = Ok b' \<and> frames b' = drop n (frames b @ [f])
           \<and> sum_list (map frame_len (frames b')) \<le> max_backup_size b
           \<and> (\<forall>m < n. max_backup_size b < sum_list (map frame_len (drop m (frames b @ [f]))))
           \<and> sent_cnt b' = sent_cnt b \<and> received_cnt b' = received_cnt b"
proof -
  have "backup_wf b" using backup_run_wf [OF backup_wf_new, of xs] assms(1) by auto
  from push_frame_spec [OF this assms(2,3), of f] show ?thesis by blast
qed

theorem push_frame_evicts_least_witness:
  "\<exists>n b'. push_frame (frame_new [7]) (backup_new\<lparr>max_backup_size := 2, current_backup_size := 2, frames := [frame_new [1, 2]]\<rparr>) = Ok b'
     \<and> frames b' = drop n [frame_new [1, 2], frame_new [7]] \<and> n = 1"
proof -
  let ?b = "backup_new\<lparr>max_backup_size := 2, current_backup_size := 2, frames := [frame_new [1, 2]]\<rparr>"
  have run: "backup_run [SetMaxBackupSize 2, PushFrame (frame_new [1, 2])] backup_new = Ok ?b"
    by (simp add: set_max_backup_size_def push_frame_def backup_new_def)
  have nf: "\<not> frozen ?b" and pos: "0 < max_backup_size ?b" by (simp_all add: backup_new_def)
  from push_frame_evicts_least [OF run nf pos, of "frame_new [7]"] obtain n b' where
    p: "push_frame (frame_new [7]) ?b = Ok b'" and f: "frames b' = drop n [frame_new [1, 2], frame_new [7]]"
    by auto
  have "frames b' = [frame_new [7]]"
    using p by (auto simp: push_frame_def backup_new_def)
  then have "n = 1" using f by (cases n) (auto simp: drop_Cons' split: if_splits)
  with p f show ?thesis by blast
qed

text \<open>
  C7: a frozen backup ignores every modification: an operation succeeds and changes nothing but
  the frozen flag itself, which only \<open>set_frozen\<close> and \<open>unfreeze\<close> can reset.
\<close>

theorem frozen_backup_inert:
  assumes "frozen b"
  shows "\<exists>z. backup_apply x b = Ok (b\<lparr>frozen := z\<rparr>) \<and> (z \<or> x = SetFrozen False \<or> x = Unfreeze)"
  using assms frozen_apply [OF assms, of x]
  by (cases x) (auto intro: exI [of _ True])

theorem frozen_backup_inert_witness:
  "\<exists>z. backup_apply (PushFrame (frame_new [1])) (freeze backup_new) = Ok ((freeze backup_new)\<lparr>frozen := z\<rparr>)"
proof -
  have "frozen (freeze backup_new)" by (simp add: freeze_def)
  from frozen_backup_inert [OF this, of "PushFrame (frame_new [1])"] show ?thesis by blast
qed

end
