(* ===== verification/Codec.thy ===== *)
theory Codec
  imports Frame
begin

text \<open>
  The codecs of \<open>distant-core/src/net/common/transport/framed/codec/\<close>: plain, compression,
  encryption, chain and predicate, and the contract a framed transport relies on. The
  compression and AEAD primitives (crates \<open>flate2\<close> and \<open>chacha20poly1305\<close>) and the system
  random generator are the fields of a record of parameters; what the code relies on of them
  is the predicate \<open>crypto_ok\<close>.
\<close>

section \<open>The interface\<close>

text \<open>Coding a sequence of frames with one \<open>&mut self\<close> operation, stopping at the first error.\<close>

fun codec_map :: "('c \<Rightarrow> frame \<Rightarrow> frame io \<times> 'c) \<Rightarrow> 'c \<Rightarrow> frame list \<Rightarrow> frame list io \<times> 'c" where
  "codec_map h c [] = (Ok [], c)"
| "codec_map h c (f # fs) =
     (case h c f of
        (Inl e, c') \<Rightarrow> (Inl e, c')
      | (Inr g, c') \<Rightarrow> (case codec_map h c' fs of
            (Inl e, c'') \<Rightarrow> (Inl e, c'')
          | (Inr gs, c'') \<Rightarrow> (Inr (g # gs), c'')))"

lemma length_codec_map: "codec_map h c fs = (Ok gs, c') \<Longrightarrow> length gs = length fs"
  by (induction fs arbitrary: c gs) (auto split: prod.splits sum.splits)

text \<open>
  A codec encodes and decodes with \<open>&mut self\<close>. \<open>compat c d\<close> says that \<open>d\<close>, on the other side
  of the wire, decodes what \<open>c\<close> encodes.
\<close>

locale frame_codec =
  fixes enc :: "'c \<Rightarrow> frame \<Rightarrow> frame io \<times> 'c"
    and dec :: "'c \<Rightarrow> frame \<Rightarrow> frame io \<times> 'c"
    and compat :: "'c \<Rightarrow> 'c \<Rightarrow> bool"
  assumes dec_enc: "compat c d \<Longrightarrow> enc c f = (Ok g, c') \<Longrightarrow> \<exists>d'. dec d g = (Ok f, d') \<and> compat c' d'"
    and compat_enc: "compat c d \<Longrightarrow> enc c f = (r, c') \<Longrightarrow> compat c' d"
begin

lemma dec_all_enc_all:
  "compat c d \<Longrightarrow> codec_map enc c fs = (Ok gs, c') \<Longrightarrow>
     \<exists>d'. codec_map dec d gs = (Ok fs, d') \<and> compat c' d'"
proof (induction fs arbitrary: c d gs)
  case Nil
  then show ?case by simp
next
  case (Cons f fs)
  from Cons.prems(2) obtain g c1 gs1 where e: "enc c f = (Ok g, c1)"
    and es: "codec_map enc c1 fs = (Ok gs1, c')" and gs: "gs = g # gs1"
    by (auto split: prod.splits sum.splits)
  from dec_enc [OF Cons.prems(1) e] obtain d1 where d1: "dec d g = (Ok f, d1)" "compat c1 d1" by blast
  from Cons.IH [OF d1(2) es] obtain d' where "codec_map dec d1 gs1 = (Ok fs, d')" "compat c' d'" by blast
  with d1 gs show ?case by simp
qed

end

section \<open>Compression\<close>

datatype compression_level =
  Zero | One | Two | Three | Four | Five | Six | Seven | Eight | Nine

definition level_best :: compression_level where "level_best = Nine"
definition level_fast :: compression_level where "level_fast = One"
definition level_none :: compression_level where "level_none = Zero"
definition default_level :: compression_level where "default_level = Six"

text \<open>\<open>level as u32\<close>.\<close>

fun level_u32 :: "compression_level \<Rightarrow> nat" where
  "level_u32 Zero = 0"
| "level_u32 One = 1"
| "level_u32 Two = 2"
| "level_u32 Three = 3"
| "level_u32 Four = 4"
| "level_u32 Five = 5"
| "level_u32 Six = 6"
| "level_u32 Seven = 7"
| "level_u32 Eight = 8"
| "level_u32 Nine = 9"

datatype compression_type = Deflate | Gzip | Zlib | UnknownCompression

definition known_compressions :: "compression_type list" where
  "known_compressions = [Deflate, Gzip, Zlib]"

definition is_unknown_compression :: "compression_type \<Rightarrow> bool" where
  "is_unknown_compression ty \<longleftrightarrow> ty = UnknownCompression"

datatype compression_codec =
    DeflateCodec compression_level
  | GzipCodec compression_level
  | ZlibCodec compression_level

fun compression_from_type_and_level ::
  "compression_type \<Rightarrow> compression_level \<Rightarrow> compression_codec io" where
  "compression_from_type_and_level Deflate l = Ok (DeflateCodec l)"
| "compression_from_type_and_level Gzip l = Ok (GzipCodec l)"
| "compression_from_type_and_level Zlib l = Ok (ZlibCodec l)"
| "compression_from_type_and_level UnknownCompression l = Err InvalidInput"

fun compression_level_of :: "compression_codec \<Rightarrow> compression_level" where
  "compression_level_of (DeflateCodec l) = l"
| "compression_level_of (GzipCodec l) = l"
| "compression_level_of (ZlibCodec l) = l"

fun compression_ty :: "compression_codec \<Rightarrow> compression_type" where
  "compression_ty (DeflateCodec l) = Deflate"
| "compression_ty (GzipCodec l) = Gzip"
| "compression_ty (ZlibCodec l) = Zlib"

section \<open>Encryption\<close>

datatype encryption_type = XChaCha20Poly1305 | UnknownEncryption

fun encryption_display :: "encryption_type \<Rightarrow> string" where
  "encryption_display XChaCha20Poly1305 = ''xchacha20poly1305''"
| "encryption_display UnknownEncryption = ''unknown''"

definition known_encryptions :: "encryption_type list" where
  "known_encryptions = [XChaCha20Poly1305]"

definition is_unknown_encryption :: "encryption_type \<Rightarrow> bool" where
  "is_unknown_encryption ty \<longleftrightarrow> ty = UnknownEncryption"

text \<open>
  An encryption codec holds its cipher (here, the key it was made from) and draws nonces from
  the system generator; the counter says how many were drawn.
\<close>

datatype encryption_codec = XChaCha (cipher_key: bytes) (nonces_drawn: nat)

section \<open>Primitives outside the repository\<close>

record crypto =
  deflate_encode :: "nat \<Rightarrow> bytes \<Rightarrow> bytes io"
  deflate_decode :: "bytes \<Rightarrow> bytes io"
  gz_encode :: "nat \<Rightarrow> bytes \<Rightarrow> bytes io"
  gz_decode :: "bytes \<Rightarrow> bytes io"
  zlib_encode :: "nat \<Rightarrow> bytes \<Rightarrow> bytes io"
  zlib_decode :: "bytes \<Rightarrow> bytes io"
  cipher_accepts :: "bytes \<Rightarrow> bool"
  aead_encrypt :: "bytes \<Rightarrow> bytes \<Rightarrow> bytes \<Rightarrow> bytes option"
  aead_decrypt :: "bytes \<Rightarrow> bytes \<Rightarrow> bytes \<Rightarrow> bytes option"
  random_nonce :: "nat \<Rightarrow> bytes"

text \<open>Documented behaviour: decoders invert encoders, a nonce has 24 bytes, and a ciphertext
  carries an authentication tag, so it is never empty.\<close>

definition crypto_ok :: "crypto \<Rightarrow> bool" where
  "crypto_ok P \<longleftrightarrow>
     (\<forall>l x y. deflate_encode P l x = Ok y \<longrightarrow> deflate_decode P y = Ok x) \<and>
     (\<forall>l x y. gz_encode P l x = Ok y \<longrightarrow> gz_decode P y = Ok x) \<and>
     (\<forall>l x y. zlib_encode P l x = Ok y \<longrightarrow> zlib_decode P y = Ok x) \<and>
     (\<forall>k n x c. aead_encrypt P k n x = Some c \<longrightarrow> aead_decrypt P k n c = Some x \<and> c \<noteq> []) \<and>
     (\<forall>i. length (random_nonce P i) = 24)"

section \<open>The encryption codec\<close>

fun encryption_from_type_and_key :: "crypto \<Rightarrow> encryption_type \<Rightarrow> bytes \<Rightarrow> encryption_codec io" where
  "encryption_from_type_and_key P XChaCha20Poly1305 key =
     (if cipher_accepts P key then Ok (XChaCha key 0) else Err InvalidInput)"
| "encryption_from_type_and_key P UnknownEncryption key = Err InvalidInput"

fun encryption_ty :: "encryption_codec \<Rightarrow> encryption_type" where
  "encryption_ty (XChaCha key i) = XChaCha20Poly1305"

fun nonce_size :: "encryption_codec \<Rightarrow> nat" where
  "nonce_size (XChaCha key i) = 24"

fun generate_nonce_bytes :: "crypto \<Rightarrow> encryption_codec \<Rightarrow> bytes \<times> encryption_codec" where
  "generate_nonce_bytes P (XChaCha key i) = (random_nonce P i, XChaCha key (Suc i))"

definition encryption_encode :: "crypto \<Rightarrow> encryption_codec \<Rightarrow> frame \<Rightarrow> frame io \<times> encryption_codec" where
  "encryption_encode P c f =
     (let (nonce, c') = generate_nonce_bytes P c in
      case aead_encrypt P (cipher_key c) nonce (item f) of
        None \<Rightarrow> (Err InvalidData, c')
      | Some ciphertext \<Rightarrow> (Ok (frame_extend (frame_new nonce) ciphertext), c'))"

definition encryption_decode :: "crypto \<Rightarrow> encryption_codec \<Rightarrow> frame \<Rightarrow> frame io" where
  "encryption_decode P c f =
     (if frame_len f \<le> nonce_size c then Err InvalidData
      else bind_io (slice 0 (nonce_size c) (item f)) (\<lambda>nonce.
           bind_io (slice (nonce_size c) (frame_len f) (item f)) (\<lambda>ciphertext.
             case aead_decrypt P (cipher_key c) nonce ciphertext of
               None \<Rightarrow> Err InvalidData
             | Some it \<Rightarrow> Ok (frame_new it))))"

section \<open>The compression codec\<close>

fun compression_encode :: "crypto \<Rightarrow> compression_codec \<Rightarrow> frame \<Rightarrow> frame io" where
  "compression_encode P (DeflateCodec l) f =
     bind_io (deflate_encode P (level_u32 l) (item f)) (\<lambda>buf. Ok (frame_new buf))"
| "compression_encode P (GzipCodec l) f =
     bind_io (gz_encode P (level_u32 l) (item f)) (\<lambda>buf. Ok (frame_new buf))"
| "compression_encode P (ZlibCodec l) f =
     bind_io (zlib_encode P (level_u32 l) (item f)) (\<lambda>buf. Ok (frame_new buf))"

fun compression_decode :: "crypto \<Rightarrow> compression_codec \<Rightarrow> frame \<Rightarrow> frame io" where
  "compression_decode P (DeflateCodec l) f = bind_io (deflate_decode P (item f)) (\<lambda>buf. Ok (frame_new buf))"
| "compression_decode P (GzipCodec l) f = bind_io (gz_decode P (item f)) (\<lambda>buf. Ok (frame_new buf))"
| "compression_decode P (ZlibCodec l) f = bind_io (zlib_decode P (item f)) (\<lambda>buf. Ok (frame_new buf))"

section \<open>Plain, chain and predicate codecs\<close>

text \<open>
  The combinators over the operations of their parts: each operation is a function from a frame
  to its result and the part's state after the call; a part that is not called keeps its state.
\<close>

definition plain_encode :: "frame \<Rightarrow> frame io" where
  "plain_encode f = Ok f"

definition plain_decode :: "frame \<Rightarrow> frame io" where
  "plain_decode f = Ok f"

definition chain_encode ::
  "(frame \<Rightarrow> frame io \<times> 'l) \<Rightarrow> (frame \<Rightarrow> frame io \<times> 'r) \<Rightarrow> 'r \<Rightarrow> frame \<Rightarrow> frame io \<times> 'l \<times> 'r" where
  "chain_encode left_enc right_enc right f =
     (case left_enc f of
        (Inl e, left') \<Rightarrow> (Inl e, left', right)
      | (Inr g, left') \<Rightarrow> (case right_enc g of (r, right') \<Rightarrow> (r, left', right')))"

definition chain_decode ::
  "(frame \<Rightarrow> frame io \<times> 'l) \<Rightarrow> (frame \<Rightarrow> frame io \<times> 'r) \<Rightarrow> 'l \<Rightarrow> frame \<Rightarrow> frame io \<times> 'l \<times> 'r" where
  "chain_decode left_dec right_dec left f =
     (case right_dec f of
        (Inl e, right') \<Rightarrow> (Inl e, left, right')
      | (Inr g, right') \<Rightarrow> (case left_dec g of (r, left') \<Rightarrow> (r, left', right')))"

definition predicate_code ::
  "(frame \<Rightarrow> bool) \<Rightarrow> (frame \<Rightarrow> frame io \<times> 'l) \<Rightarrow> (frame \<Rightarrow> frame io \<times> 'r) \<Rightarrow> 'l \<Rightarrow> 'r
     \<Rightarrow> frame \<Rightarrow> frame io \<times> 'l \<times> 'r" where
  "predicate_code p left_op right_op left right f =
     (if p f then (case left_op f of (r, left') \<Rightarrow> (r, left', right))
      else (case right_op f of (r, right') \<Rightarrow> (r, left, right')))"

section \<open>Boxed codecs\<close>

datatype codec =
    PlainCodec
  | CompressionCodec compression_codec
  | EncryptionCodec encryption_codec
  | ChainCodec codec codec
  | PredicateCodec codec codec "frame \<Rightarrow> bool"

primrec codec_encode :: "crypto \<Rightarrow> codec \<Rightarrow> frame \<Rightarrow> frame io \<times> codec" where
  "codec_encode P PlainCodec = (\<lambda>f. (plain_encode f, PlainCodec))"
| "codec_encode P (CompressionCodec c) = (\<lambda>f. (compression_encode P c f, CompressionCodec c))"
| "codec_encode P (EncryptionCodec c) =
     (\<lambda>f. case encryption_encode P c f of (r, c') \<Rightarrow> (r, EncryptionCodec c'))"
| "codec_encode P (ChainCodec left right) =
     (\<lambda>f. case chain_encode (codec_encode P left) (codec_encode P right) right f of
        (r, left', right') \<Rightarrow> (r, ChainCodec left' right'))"
| "codec_encode P (PredicateCodec left right p) =
     (\<lambda>f. case predicate_code p (codec_encode P left) (codec_encode P right) left right f of
        (r, left', right') \<Rightarrow> (r, PredicateCodec left' right' p))"

primrec codec_decode :: "crypto \<Rightarrow> codec \<Rightarrow> frame \<Rightarrow> frame io \<times> codec" where
  "codec_decode P PlainCodec = (\<lambda>f. (plain_decode f, PlainCodec))"
| "codec_decode P (CompressionCodec c) = (\<lambda>f. (compression_decode P c f, CompressionCodec c))"
| "codec_decode P (EncryptionCodec c) = (\<lambda>f. (encryption_decode P c f, EncryptionCodec c))"
| "codec_decode P (ChainCodec left right) =
     (\<lambda>f. case chain_decode (codec_decode P left) (codec_decode P right) left f of
        (r, left', right') \<Rightarrow> (r, ChainCodec left' right'))"
| "codec_decode P (PredicateCodec left right p) =
     (\<lambda>f. case predicate_code p (codec_decode P left) (codec_decode P right) left right f of
        (r, left', right') \<Rightarrow> (r, PredicateCodec left' right' p))"

lemmas combinator_defs [simp] =
  plain_encode_def plain_decode_def chain_encode_def chain_decode_def

section \<open>The two ends of a connection\<close>

text \<open>The decoder of the peer has the same shape and the same keys; levels and nonces may differ.\<close>

fun codec_compat :: "codec \<Rightarrow> codec \<Rightarrow> bool" where
  "codec_compat PlainCodec PlainCodec = True"
| "codec_compat (CompressionCodec c) (CompressionCodec d) = (compression_ty c = compression_ty d)"
| "codec_compat (EncryptionCodec c) (EncryptionCodec d) = (cipher_key c = cipher_key d)"
| "codec_compat (ChainCodec l r) (ChainCodec l' r') = (codec_compat l l' \<and> codec_compat r r')"
| "codec_compat _ _ = False"

lemma crypto_okD:
  assumes "crypto_ok P"
  shows "deflate_encode P l x = Ok y \<Longrightarrow> deflate_decode P y = Ok x"
    and "gz_encode P l x = Ok y \<Longrightarrow> gz_decode P y = Ok x"
    and "zlib_encode P l x = Ok y \<Longrightarrow> zlib_decode P y = Ok x"
    and "aead_encrypt P k n x = Some c \<Longrightarrow> aead_decrypt P k n c = Some x"
    and "aead_encrypt P k n x = Some c \<Longrightarrow> c \<noteq> []"
    and "length (random_nonce P i) = 24"
  using assms unfolding crypto_ok_def by blast+

lemma compression_roundtrip:
  assumes "crypto_ok P" and "compression_ty c = compression_ty d" and "compression_encode P c f = Ok g"
  shows "compression_decode P d g = Ok f"
  using assms
  by (cases c; cases d)
    (auto simp: bind_io_Inr_iff dest: crypto_okD(1,2,3) [OF assms(1)])

lemma encryption_encode_shape:
  assumes "crypto_ok P" and "encryption_encode P c f = (Ok g, c')"
  shows "\<exists>n x. item g = n @ x \<and> length n = 24 \<and> x \<noteq> []
      \<and> aead_encrypt P (cipher_key c) n (item f) = Some x"
proof -
  obtain key i where c: "c = XChaCha key i" by (cases c)
  from assms(2) c obtain x where x: "aead_encrypt P key (random_nonce P i) (item f) = Some x"
    and g: "g = frame_extend (frame_new (random_nonce P i)) x"
    by (auto simp: encryption_encode_def Let_def split: option.splits)
  have "x \<noteq> []" using crypto_okD(5) [OF assms(1) x] .
  moreover have "length (random_nonce P i) = 24" using crypto_okD(6) [OF assms(1)] .
  ultimately show ?thesis using x g c by (auto simp: frame_extend_def)
qed

lemma encryption_roundtrip:
  assumes "crypto_ok P" and "cipher_key c = cipher_key d" and "encryption_encode P c f = (Ok g, c')"
  shows "encryption_decode P d g = Ok f"
proof -
  from encryption_encode_shape [OF assms(1,3)] obtain n x where
    g: "item g = n @ x" and n: "length n = 24" and x: "x \<noteq> []"
    and enc: "aead_encrypt P (cipher_key c) n (item f) = Some x" by blast
  from crypto_okD(4) [OF assms(1) enc] assms(2)
  have "aead_decrypt P (cipher_key d) n x = Some (item f)" by simp
  with g n x show ?thesis
    by (cases d) (simp add: encryption_decode_def frame_len_def)
qed

lemma cipher_key_encode: "encryption_encode P c f = (r, c') \<Longrightarrow> cipher_key c' = cipher_key c"
  by (cases c) (auto simp: encryption_encode_def Let_def split: option.splits)

lemma codec_encode_compat:
  "codec_compat c d \<Longrightarrow> codec_encode P c f = (r, c') \<Longrightarrow> codec_compat c' d"
proof (induction c d arbitrary: f r c' rule: codec_compat.induct)
  case (3 c d)
  then show ?case by (auto split: prod.splits dest: cipher_key_encode)
next
  case (4 l r l' r')
  from "4.prems" show ?case
    by (auto split: prod.splits sum.splits dest: "4.IH")
qed auto

lemma codec_decode_encode:
  "crypto_ok P \<Longrightarrow> codec_compat c d \<Longrightarrow> codec_encode P c f = (Ok g, c') \<Longrightarrow>
     \<exists>d'. codec_decode P d g = (Ok f, d') \<and> codec_compat c' d'"
proof (induction c d arbitrary: f g c' rule: codec_compat.induct)
  case (2 c d)
  then show ?case by (auto dest: compression_roundtrip)
next
  case (3 c d)
  from "3.prems"(3) obtain c1 where e: "encryption_encode P c f = (Ok g, c1)" and c': "c' = EncryptionCodec c1"
    by (auto split: prod.splits)
  with encryption_roundtrip [OF "3.prems"(1) _ e, of d] cipher_key_encode [OF e] "3.prems"(2)
  show ?case by simp
next
  case (4 l r l' r')
  from "4.prems"(3) obtain m l1 r1 where l: "codec_encode P l f = (Ok m, l1)"
    and r: "codec_encode P r m = (Ok g, r1)" and c': "c' = ChainCodec l1 r1"
    by (auto split: prod.splits sum.splits)
  from "4.IH"(2) [OF "4.prems"(1) _ r] "4.prems"(2) obtain r2 where
    r2: "codec_decode P r' g = (Ok m, r2)" "codec_compat r1 r2" by auto
  from "4.IH"(1) [OF "4.prems"(1) _ l] "4.prems"(2) obtain l2 where
    l2: "codec_decode P l' m = (Ok f, l2)" "codec_compat l1 l2" by auto
  from r2 l2 c' show ?case by simp
qed auto

section \<open>The contract, discharged\<close>

text \<open>A \<open>BoxedCodec\<close> together with the primitives it runs on.\<close>

type_synonym boxed_codec = "crypto \<times> codec"

fun boxed_encode :: "boxed_codec \<Rightarrow> frame \<Rightarrow> frame io \<times> boxed_codec" where
  "boxed_encode (P, c) f = (let (r, c') = codec_encode P c f in (r, (P, c')))"

fun boxed_decode :: "boxed_codec \<Rightarrow> frame \<Rightarrow> frame io \<times> boxed_codec" where
  "boxed_decode (P, c) f = (let (r, c') = codec_decode P c f in (r, (P, c')))"

fun boxed_compat :: "boxed_codec \<Rightarrow> boxed_codec \<Rightarrow> bool" where
  "boxed_compat (P, c) (Q, d) \<longleftrightarrow> P = Q \<and> crypto_ok P \<and> codec_compat c d"

interpretation boxed: frame_codec boxed_encode boxed_decode boxed_compat
proof
  fix c d f g c'
  assume c: "boxed_compat c d" and e: "boxed_encode c f = (Ok g, c')"
  obtain P k where ck: "c = (P, k)" by (cases c)
  obtain Q l where dl: "d = (Q, l)" by (cases d)
  from e ck obtain k' where "codec_encode P k f = (Ok g, k')" and "c' = (P, k')"
    by (auto split: prod.splits)
  with codec_decode_encode [of P k l f g k'] c ck dl
  show "\<exists>d'. boxed_decode d g = (Ok f, d') \<and> boxed_compat c' d'" by auto
next
  fix c d f r c'
  assume "boxed_compat c d" and "boxed_encode c f = (r, c')"
  then show "boxed_compat c' d"
    by (cases c; cases d) (auto split: prod.splits dest: codec_encode_compat)
qed

section \<open>A concrete instance of the primitives\<close>

text \<open>For evaluation at concrete inputs: identity compression, and an AEAD whose tag is one byte.\<close>

definition example_crypto :: crypto where
  "example_crypto = \<lparr>
     deflate_encode = (\<lambda>l x. Ok x), deflate_decode = Ok,
     gz_encode = (\<lambda>l x. Ok x), gz_decode = Ok,
     zlib_encode = (\<lambda>l x. Ok x), zlib_decode = Ok,
     cipher_accepts = (\<lambda>k. length k = 32),
     aead_encrypt = (\<lambda>k n x. Some (0 # x)),
     aead_decrypt = (\<lambda>k n c. case c of [] \<Rightarrow> None | t # x \<Rightarrow> if t = 0 then Some x else None),
     random_nonce = (\<lambda>i. replicate 24 (word_of_nat i))\<rparr>"

lemma example_crypto_ok: "crypto_ok example_crypto"
  by (simp add: crypto_ok_def example_crypto_def)

section \<open>Properties\<close>

text \<open>
  C8: a stream of frames encoded by one end is decoded by a compatible codec of the other end to
  the same frames in order, whatever chain of compression and encryption the codec is and
  whatever nonces are drawn.
\<close>

theorem codec_stream_roundtrip:
  assumes "crypto_ok P" and "codec_compat c d"
    and "codec_map boxed_encode (P, c) fs = (Ok gs, c')"
  shows "\<exists>d'. codec_map boxed_decode (P, d) gs = (Ok fs, d')"
  using boxed.dec_all_enc_all [of "(P, c)" "(P, d)" fs gs c'] assms by auto

theorem codec_stream_roundtrip_witness:
  "\<exists>gs d'. codec_map boxed_decode (example_crypto, ChainCodec (EncryptionCodec (XChaCha [7] 5)) (CompressionCodec (GzipCodec One))) gs
      = (Ok [frame_new [1, 2], frame_empty], d')"
proof -
  let ?c = "ChainCodec (EncryptionCodec (XChaCha [7] 0)) (CompressionCodec (GzipCodec Nine))"
  let ?d = "ChainCodec (EncryptionCodec (XChaCha [7] 5)) (CompressionCodec (GzipCodec One))"
  have "codec_compat ?c ?d" by simp
  moreover have "\<exists>gs c'. codec_map boxed_encode (example_crypto, ?c) [frame_new [1, 2], frame_empty] = (Ok gs, c')"
    by (simp add: encryption_encode_def example_crypto_def)
  then obtain gs c' where "codec_map boxed_encode (example_crypto, ?c) [frame_new [1, 2], frame_empty] = (Ok gs, c')"
    by blast
  ultimately show ?thesis
    using codec_stream_roundtrip [OF example_crypto_ok, of ?c ?d] by blast
qed

text \<open>
  C9: an encrypted frame that is not longer than a nonce is rejected as invalid data and one that
  is longer never panics, whatever its bytes; a frame the codec encrypted is always longer
  than a nonce.
\<close>

theorem encryption_decode_total:
  "(frame_len f \<le> 24 \<longrightarrow> encryption_decode P c f = Err InvalidData)
   \<and> (24 < frame_len f \<longrightarrow> encryption_decode P c f =
        (case aead_decrypt P (cipher_key c) (take 24 (item f)) (drop 24 (item f)) of
           None \<Rightarrow> Err InvalidData | Some it \<Rightarrow> Ok (frame_new it)))
   \<and> (crypto_ok P \<longrightarrow> encryption_encode P c f = (Ok g, c') \<longrightarrow> 24 < frame_len g)"
proof (intro conjI impI)
  assume "crypto_ok P" and "encryption_encode P c f = (Ok g, c')"
  then show "24 < frame_len g"
    using encryption_encode_shape [of P c f g c'] by (auto simp: frame_len_def)
qed (cases c; simp add: encryption_decode_def frame_len_def)+

theorem encryption_decode_total_witness:
  "24 < frame_len (frame_new (replicate 24 0 @ [0, 9]))
   \<and> encryption_decode example_crypto (XChaCha [7] 0) (frame_new (replicate 24 0 @ [0, 9])) = Ok (frame_new [9])"
  using encryption_decode_total [of "frame_new (replicate 24 0 @ [0, 9])" example_crypto "XChaCha [7] 0"
      "frame_new (replicate 24 0 @ [0, 9])" "XChaCha [7] 1"]
  by (simp add: example_crypto_def)

end
