(* ===== verification/Transport.thy ===== *)
theory Transport
  imports Backup Codec
begin

text \<open>
  The framed transport of \<open>distant-core/src/net/common/transport/framed.rs\<close>. The inner
  transport (a socket, a pipe, an in-memory channel) is a script: the results its \<open>ready\<close>,
  \<open>try_read\<close> and \<open>try_write\<close> will give, in order, and the bytes it accepted. Where a script is
  exhausted a \<open>try_\<close> call would block and \<open>ready\<close> stays pending. Every run of the code against
  a real transport is a run against the script of the results it saw.
\<close>

section \<open>The inner transport\<close>

record ready_flags =
  readable :: bool
  writable :: bool
  read_closed :: bool
  write_closed :: bool

definition ready_empty :: ready_flags where
  "ready_empty = \<lparr>readable = False, writable = False, read_closed = False, write_closed = False\<rparr>"

definition ready_readable :: ready_flags where
  "ready_readable = ready_empty\<lparr>readable := True\<rparr>"

definition ready_union :: "ready_flags \<Rightarrow> ready_flags \<Rightarrow> ready_flags" where
  "ready_union a b =
     \<lparr>readable = (readable a \<or> readable b), writable = (writable a \<or> writable b),
      read_closed = (read_closed a \<or> read_closed b),
      write_closed = (write_closed a \<or> write_closed b)\<rparr>"

datatype interest = Interest (wants_read: bool) (wants_write: bool)

record wire =
  readies :: "ready_flags io list"
  reads :: "bytes io list"
  writes :: "nat io list"
  written :: bytes

definition wire_ready :: "wire \<Rightarrow> ready_flags io option \<times> wire" where
  "wire_ready w = (case readies w of [] \<Rightarrow> (None, w) | r # rs \<Rightarrow> (Some r, w\<lparr>readies := rs\<rparr>))"

text \<open>
  \<open>try_read\<close> with a buffer of \<open>n\<close> bytes hands out at most \<open>n\<close> and keeps the rest of the chunk;
  an empty chunk is the \<open>Ok(0)\<close> of a closed transport. A write event \<open>k\<close> accepts at most \<open>k\<close> of
  the bytes offered.
\<close>

definition wire_try_read :: "nat \<Rightarrow> wire \<Rightarrow> bytes io \<times> wire" where
  "wire_try_read n w =
     (case reads w of
        [] \<Rightarrow> (Err WouldBlock, w)
      | Inl e # rs \<Rightarrow> (Inl e, w\<lparr>reads := rs\<rparr>)
      | Inr bs # rs \<Rightarrow>
          (if n < length bs then (Ok (take n bs), w\<lparr>reads := Ok (drop n bs) # rs\<rparr>)
           else (Ok bs, w\<lparr>reads := rs\<rparr>)))"

definition wire_try_write :: "bytes \<Rightarrow> wire \<Rightarrow> nat io \<times> wire" where
  "wire_try_write buf w =
     (case writes w of
        [] \<Rightarrow> (Err WouldBlock, w)
      | Inl e # ws \<Rightarrow> (Inl e, w\<lparr>writes := ws\<rparr>)
      | Inr k # ws \<Rightarrow>
          (let n = min k (length buf)
           in (Ok n, w\<lparr>writes := ws, written := written w @ take n buf\<rparr>)))"

text \<open>The work left in a script of reads, which every successful read reduces.\<close>

definition reads_left :: "wire \<Rightarrow> nat" where
  "reads_left w = sum_list (map (case_sum (\<lambda>_. 1) (\<lambda>bs. Suc (length bs))) (reads w))"

lemma wire_try_read_decreases:
  "wire_try_read n w = (Inr bs, w') \<Longrightarrow> 0 < n \<Longrightarrow> reads_left w' < reads_left w"
  by (auto simp: wire_try_read_def reads_left_def split: list.splits sum.splits if_splits)

lemma wire_try_read_frame:
  "wire_try_read n w = (r, w') \<Longrightarrow> readies w' = readies w \<and> writes w' = writes w \<and> written w' = written w"
  by (auto simp: wire_try_read_def split: list.splits sum.splits if_splits)

lemma wire_try_write_frame:
  "wire_try_write buf w = (r, w') \<Longrightarrow> readies w' = readies w \<and> reads w' = reads w"
  by (auto simp: wire_try_write_def Let_def split: list.splits sum.splits)

section \<open>The framed transport\<close>

definition read_buf_size :: nat where
  "read_buf_size = 8 * 1024"

record 'c ftransport =
  inner :: wire
  fcodec :: 'c
  incoming :: bytes
  outgoing :: bytes
  fbackup :: backup

definition ftransport_new :: "wire \<Rightarrow> 'c \<Rightarrow> 'c ftransport" where
  "ftransport_new w c = \<lparr>inner = w, fcodec = c, incoming = [], outgoing = [], fbackup = backup_new\<rparr>"

definition set_codec :: "'c \<Rightarrow> 'c ftransport \<Rightarrow> 'c ftransport" where
  "set_codec c t = t\<lparr>fcodec := c\<rparr>"

definition ftransport_clear :: "'c ftransport \<Rightarrow> 'c ftransport" where
  "ftransport_clear t = t\<lparr>incoming := [], outgoing := []\<rparr>"

text \<open>\<open>ready\<close>: \<open>None\<close> while the call is pending; an outer fault is a panic of \<open>Frame::available\<close>.\<close>

definition ftransport_ready ::
  "interest \<Rightarrow> 'c ftransport \<Rightarrow> ready_flags io option \<times> 'c ftransport" where
  "ftransport_ready i t =
     (case (if wants_read i then frame_available (incoming t) else Ok False) of
        Inl e \<Rightarrow> (Some (Inl e), t)
      | Inr avail \<Rightarrow>
          (let ready = (if avail then ready_readable else ready_empty) in
           if \<not> wants_write i \<and> readable ready then (Some (Ok ready), t)
           else (case wire_ready (inner t) of
                   (None, w) \<Rightarrow> (None, t\<lparr>inner := w\<rparr>)
                 | (Some (Inl e), w) \<Rightarrow> (Some (Inl e), t\<lparr>inner := w\<rparr>)
                 | (Some (Inr r), w) \<Rightarrow> (Some (Ok (ready_union r ready)), t\<lparr>inner := w\<rparr>))))"

subsection \<open>Writing\<close>

text \<open>The loop of \<open>try_flush\<close>.\<close>

function flush_loop :: "wire \<Rightarrow> bytes \<Rightarrow> nat \<Rightarrow> nat io \<times> wire \<times> bytes" where
  "flush_loop w out n =
     (if out = [] then (Ok n, w, out)
      else case wire_try_write out w of
             (Inl e, w') \<Rightarrow> (Inl e, w', out)
           | (Inr k, w') \<Rightarrow>
               if k = 0 then (Err WriteZero, w', out)
               else flush_loop w' (drop k out) (n + k))"
  by pat_completeness auto
termination
  by (relation "measure (\<lambda>(w, out, n). length out)") auto

declare flush_loop.simps [simp del]

definition try_flush :: "'c ftransport \<Rightarrow> nat io \<times> 'c ftransport" where
  "try_flush t =
     (case flush_loop (inner t) (outgoing t) 0 of
        (r, w, out) \<Rightarrow> (r, t\<lparr>inner := w, outgoing := out\<rparr>))"

definition try_write_frame ::
  "('c \<Rightarrow> frame \<Rightarrow> frame io \<times> 'c) \<Rightarrow> frame \<Rightarrow> 'c ftransport \<Rightarrow> unit io \<times> 'c ftransport" where
  "try_write_frame enc f t =
     (case enc (fcodec t) f of
        (Inl e, c') \<Rightarrow> (Inl e, t\<lparr>fcodec := c'\<rparr>)
      | (Inr g, c') \<Rightarrow>
          (let t1 = t\<lparr>fcodec := c', outgoing := frame_write g (outgoing t)\<rparr> in
           case (if frame_is_nonempty f
                 then push_frame f (increment_sent_cnt (fbackup t1))
                 else Ok (fbackup t1)) of
             Inl e \<Rightarrow> (Inl e, t1)
           | Inr b \<Rightarrow> (case try_flush (t1\<lparr>fbackup := b\<rparr>) of
                 (Inl e, t2) \<Rightarrow> (Inl e, t2)
               | (Inr _, t2) \<Rightarrow> (Ok (), t2))))"

subsection \<open>Reading\<close>

text \<open>The macro \<open>read_next_frame\<close>: \<open>Ok None\<close> where it falls through.\<close>

definition read_next_frame ::
  "('c \<Rightarrow> frame \<Rightarrow> frame io \<times> 'c) \<Rightarrow> 'c ftransport \<Rightarrow> frame option io \<times> 'c ftransport" where
  "read_next_frame dec t =
     (case frame_read (incoming t) of
        Inl e \<Rightarrow> (Inl e, t)
      | Inr (None, buf) \<Rightarrow> (Ok None, t\<lparr>incoming := buf\<rparr>)
      | Inr (Some f, buf) \<Rightarrow>
          (let t1 = t\<lparr>incoming := buf,
                      fbackup := (if frame_is_nonempty f then increment_received_cnt (fbackup t)
                                  else fbackup t)\<rparr>
           in case dec (fcodec t1) f of
                (Inl e, c') \<Rightarrow> (Inl e, t1\<lparr>fcodec := c'\<rparr>)
              | (Inr g, c') \<Rightarrow> (Ok (Some g), t1\<lparr>fcodec := c'\<rparr>)))"

lemma inner_read_next_frame: "read_next_frame dec t = (r, t') \<Longrightarrow> inner t' = inner t"
  by (auto simp: read_next_frame_def Let_def split: sum.splits option.splits prod.splits)

function read_loop ::
  "('c \<Rightarrow> frame \<Rightarrow> frame io \<times> 'c) \<Rightarrow> 'c ftransport \<Rightarrow> frame option io \<times> 'c ftransport" where
  "read_loop dec t =
     (case wire_try_read read_buf_size (inner t) of
        (Inl e, w) \<Rightarrow> (Inl e, t\<lparr>inner := w\<rparr>)
      | (Inr bs, w) \<Rightarrow>
          (let t1 = t\<lparr>inner := w\<rparr> in
           if bs = [] then (if incoming t = [] then (Ok None, t1) else (Err UnexpectedEof, t1))
           else case read_next_frame dec (t1\<lparr>incoming := incoming t @ bs\<rparr>) of
                  (Inl e, t2) \<Rightarrow> (Inl e, t2)
                | (Inr (Some f), t2) \<Rightarrow> (Ok (Some f), t2)
                | (Inr None, t2) \<Rightarrow> read_loop dec t2))"
  by pat_completeness auto
termination
proof (relation "measure (\<lambda>(dec, t). reads_left (inner t))", goal_cases)
  case 1
  show ?case by simp
next
  case (2 dec t y w bs t1 z t2)
  then have "inner t2 = w" and "reads_left w < reads_left (inner t)"
    by (auto dest!: inner_read_next_frame [OF sym] wire_try_read_decreases [OF sym]
        simp: read_buf_size_def)
  then show ?case by simp
qed

declare read_loop.simps [simp del]

definition try_read_frame ::
  "('c \<Rightarrow> frame \<Rightarrow> frame io \<times> 'c) \<Rightarrow> 'c ftransport \<Rightarrow> frame option io \<times> 'c ftransport" where
  "try_read_frame dec t =
     (if incoming t \<noteq> [] then
        (case read_next_frame dec t of
           (Inl e, t1) \<Rightarrow> (Inl e, t1)
         | (Inr (Some f), t1) \<Rightarrow> (Ok (Some f), t1)
         | (Inr None, t1) \<Rightarrow> read_loop dec t1)
      else read_loop dec t)"


subsection \<open>Waiting operations\<close>

text \<open>
  The \<open>async\<close> loops: \<open>None\<close> is a call that is still waiting for the inner transport when its
  script of readiness results ends.
\<close>

lemma readies_flush_loop:
  "flush_loop w out n = (r, w', out') \<Longrightarrow> readies w' = readies w \<and> reads w' = reads w"
proof (induction w out n rule: flush_loop.induct)
  case (1 w out n)
  show ?case
    using "1.prems" "1.IH"
    by (subst (asm) flush_loop.simps)
      (auto split: if_splits prod.splits sum.splits dest!: wire_try_write_frame)
qed

lemma readies_try_flush: "try_flush t = (r, t') \<Longrightarrow> readies (inner t') = readies (inner t)"
  by (auto simp: try_flush_def split: prod.splits dest: readies_flush_loop)

lemma ready_writable_consumes:
  "ftransport_ready (Interest False True) t = (Some (Inr x), t1) \<Longrightarrow>
     length (readies (inner t1)) < length (readies (inner t))"
  by (auto simp: ftransport_ready_def wire_ready_def Let_def split: list.splits sum.splits)

text \<open>The \<open>loop\<close> of \<open>write_frame\<close>.\<close>

function flush_retry :: "'c ftransport \<Rightarrow> unit io option \<times> 'c ftransport" where
  "flush_retry t =
     (case ftransport_ready (Interest False True) t of
        (None, t1) \<Rightarrow> (None, t1)
      | (Some (Inl e), t1) \<Rightarrow> (Some (Inl e), t1)
      | (Some (Inr x), t1) \<Rightarrow>
          (case try_flush t1 of
             (r, t2) \<Rightarrow>
               if r = Err WouldBlock then flush_retry t2
               else (Some (map_sum id (\<lambda>_. ()) r), t2)))"
  by pat_completeness auto
termination
  by (relation "measure (\<lambda>t. length (readies (inner t)))")
    (auto dest!: ready_writable_consumes [OF sym] readies_try_flush [OF sym])

declare flush_retry.simps [simp del]

text \<open>\<open>flush\<close>: the guard of its \<open>while\<close> is tested again after every blocked attempt.\<close>

function ftransport_flush :: "'c ftransport \<Rightarrow> unit io option \<times> 'c ftransport" where
  "ftransport_flush t =
     (if outgoing t = [] then (Some (Ok ()), t)
      else case ftransport_ready (Interest False True) t of
        (None, t1) \<Rightarrow> (None, t1)
      | (Some (Inl e), t1) \<Rightarrow> (Some (Inl e), t1)
      | (Some (Inr x), t1) \<Rightarrow>
          (case try_flush t1 of
             (r, t2) \<Rightarrow>
               if r = Err WouldBlock then ftransport_flush t2
               else (Some (map_sum id (\<lambda>_. ()) r), t2)))"
  by pat_completeness auto
termination
  by (relation "measure (\<lambda>t. length (readies (inner t)))")
    (auto dest!: ready_writable_consumes [OF sym] readies_try_flush [OF sym])

declare ftransport_flush.simps [simp del]

definition ftransport_write_frame ::
  "('c \<Rightarrow> frame \<Rightarrow> frame io \<times> 'c) \<Rightarrow> frame \<Rightarrow> 'c ftransport \<Rightarrow> unit io option \<times> 'c ftransport" where
  "ftransport_write_frame enc f t =
     (case ftransport_ready (Interest False True) t of
        (None, t1) \<Rightarrow> (None, t1)
      | (Some (Inl e), t1) \<Rightarrow> (Some (Inl e), t1)
      | (Some (Inr x), t1) \<Rightarrow>
          (case try_write_frame enc f t1 of
             (r, t2) \<Rightarrow> if r = Err WouldBlock then flush_retry t2 else (Some r, t2)))"

text \<open>The runs of the read loop, as an induction rule over its result.\<close>

lemma read_loop_induct [consumes 1, case_names Fail Closed Done Again]:
  assumes run: "read_loop dec t = (r, t')"
    and Fail: "\<And>t e w. wire_try_read read_buf_size (inner t) = (Inl e, w) \<Longrightarrow> P t (Inl e) (t\<lparr>inner := w\<rparr>)"
    and Closed: "\<And>t w. wire_try_read read_buf_size (inner t) = (Inr [], w) \<Longrightarrow>
        P t (if incoming t = [] then Ok None else Err UnexpectedEof) (t\<lparr>inner := w\<rparr>)"
    and Done: "\<And>t bs w y t2. wire_try_read read_buf_size (inner t) = (Inr bs, w) \<Longrightarrow> bs \<noteq> [] \<Longrightarrow>
        read_next_frame dec (t\<lparr>inner := w, incoming := incoming t @ bs\<rparr>) = (y, t2) \<Longrightarrow>
        y \<noteq> Ok None \<Longrightarrow> P t y t2"
    and Again: "\<And>t bs w t2 r t'. wire_try_read read_buf_size (inner t) = (Inr bs, w) \<Longrightarrow> bs \<noteq> [] \<Longrightarrow>
        read_next_frame dec (t\<lparr>inner := w, incoming := incoming t @ bs\<rparr>) = (Ok None, t2) \<Longrightarrow>
        P t2 r t' \<Longrightarrow> P t r t'"
  shows "P t r t'"
  using run
proof (induction d \<equiv> dec t rule: read_loop.induct)
  case (1 t)
  obtain x w where rd: "wire_try_read read_buf_size (inner t) = (x, w)" by fastforce
  show ?case
  proof (cases x)
    case (Inl e)
    with "1.prems" rd Fail [of t e w] show ?thesis by (simp add: read_loop.simps [of dec t])
  next
    case (Inr bs)
    show ?thesis
    proof (cases "bs = []")
      case True
      with "1.prems" rd Inr Closed [of t w] show ?thesis
        by (simp add: read_loop.simps [of dec t] split: if_splits)
    next
      case ne: False
      obtain y t2 where nx: "read_next_frame dec (t\<lparr>inner := w, incoming := incoming t @ bs\<rparr>) = (y, t2)"
        by fastforce
      show ?thesis
      proof (cases "y = Ok None")
        case True
        with "1.prems" rd Inr ne nx have "read_loop dec t2 = (r, t')"
          by (simp add: read_loop.simps [of dec t])
        with "1.hyps" [OF rd [symmetric] Inr refl] ne nx True have "P t2 r t'" by simp
        with Again rd Inr ne nx True show ?thesis by blast
      next
        case False
        with "1.prems" rd Inr ne nx have "r = y" and "t' = t2"
          by (auto simp: read_loop.simps [of dec t] split: sum.splits option.splits)
        with Done rd Inr ne nx False show ?thesis by blast
      qed
    qed
  qed
qed

lemma readies_read_loop: "read_loop dec t = (r, t') \<Longrightarrow> readies (inner t') = readies (inner t)"
  by (induction rule: read_loop_induct) (auto dest!: inner_read_next_frame wire_try_read_frame)

lemma readies_try_read_frame: "try_read_frame dec t = (r, t') \<Longrightarrow> readies (inner t') = readies (inner t)"
  by (auto simp: try_read_frame_def dest!: inner_read_next_frame readies_read_loop
        split: if_splits prod.splits sum.splits option.splits)

lemma ready_readable_cases:
  "ftransport_ready (Interest True False) t = (Some (Inr x), t1) \<Longrightarrow>
     length (readies (inner t1)) < length (readies (inner t))
     \<or> t1 = t \<and> frame_available (incoming t) = Ok True"
  by (auto simp: ftransport_ready_def wire_ready_def Let_def ready_empty_def
      split: list.splits sum.splits if_splits)

lemma frame_available_iff:
  "frame_available src = Ok True \<longleftrightarrow> (\<exists>f rest. frame_read src = Ok (Some f, rest))"
  by (auto simp: frame_available_def bind_io_Inr_iff)

lemma try_read_frame_available:
  assumes "frame_read (incoming t) = Ok (Some f, rest)" and "try_read_frame dec t = (r, t')"
  shows "incoming t' = rest" and "r = map_sum id Some (fst (dec (fcodec t) f))"
    and "length rest < length (incoming t)"
proof -
  have "incoming t \<noteq> []" using frame_read_SomeD(3) [OF assms(1)] by auto
  with assms show "incoming t' = rest" and "r = map_sum id Some (fst (dec (fcodec t) f))"
    by (auto simp: try_read_frame_def read_next_frame_def Let_def split: sum.splits prod.splits option.splits)
  show "length rest < length (incoming t)"
    using frame_read_SomeD(1) [OF assms(1)] by (simp add: header_size_def)
qed

lemma read_frame_decreases:
  assumes "ftransport_ready (Interest True False) t = (Some (Inr x), t1)"
    and "try_read_frame dec t1 = (r, t2)"
  shows "length (readies (inner t2)) < length (readies (inner t))
     \<or> length (readies (inner t2)) = length (readies (inner t)) \<and> length (incoming t2) < length (incoming t)"
proof -
  note r = readies_try_read_frame [OF assms(2)]
  from ready_readable_cases [OF assms(1)] show ?thesis
  proof
    assume "t1 = t \<and> frame_available (incoming t) = Ok True"
    then obtain f rest where "t1 = t" and "frame_read (incoming t1) = Ok (Some f, rest)"
      by (auto simp: frame_available_iff)
    with try_read_frame_available [OF _ assms(2)] r show ?thesis by fastforce
  qed (simp add: r)
qed

function ftransport_read_frame ::
  "('c \<Rightarrow> frame \<Rightarrow> frame io \<times> 'c) \<Rightarrow> 'c ftransport \<Rightarrow> frame option io option \<times> 'c ftransport" where
  "ftransport_read_frame dec t =
     (case ftransport_ready (Interest True False) t of
        (None, t1) \<Rightarrow> (None, t1)
      | (Some (Inl e), t1) \<Rightarrow> (Some (Inl e), t1)
      | (Some (Inr x), t1) \<Rightarrow>
          (case try_read_frame dec t1 of
             (r, t2) \<Rightarrow> if r = Err WouldBlock then ftransport_read_frame dec t2 else (Some r, t2)))"
  by pat_completeness auto
termination
  by (relation "measures [\<lambda>(dec, t). length (readies (inner t)), \<lambda>(dec, t). length (incoming t)]")
    (auto dest: read_frame_decreases [OF sym sym])

declare ftransport_read_frame.simps [simp del]

text \<open>\<open>do_frozen\<close> runs an operation with the backup frozen and restores the flag.\<close>

definition do_frozen :: "('c ftransport \<Rightarrow> 'r \<times> 'c ftransport) \<Rightarrow> 'c ftransport \<Rightarrow> 'r \<times> 'c ftransport" where
  "do_frozen h t =
     (let z = is_frozen (fbackup t);
          (r, t') = h (t\<lparr>fbackup := freeze (fbackup t)\<rparr>)
      in (r, t'\<lparr>fbackup := set_frozen z (fbackup t')\<rparr>))"


section \<open>Writing conserves the byte stream\<close>

lemma flush_loop_spec:
  "flush_loop w out n = (r, w', out') \<Longrightarrow>
     written w' @ out' = written w @ out \<and> (\<forall>m. r = Ok m \<longrightarrow> out' = [] \<and> m = n + length out)"
proof (induction w out n rule: flush_loop.induct)
  case (1 w out n)
  show ?case
  proof (cases "out = []")
    case True
    with "1.prems" show ?thesis by (auto simp: flush_loop.simps)
  next
    case ne: False
    obtain x w1 where tw: "wire_try_write out w = (x, w1)" by fastforce
    show ?thesis
    proof (cases x)
      case (Inl e)
      with tw have "written w1 = written w"
        by (auto simp: wire_try_write_def Let_def split: list.splits sum.splits)
      with "1.prems" ne tw Inl show ?thesis by (auto simp: flush_loop.simps [of w out n])
    next
      case (Inr k)
      with tw have w1: "written w1 = written w @ take k out" and k: "k \<le> length out"
        by (auto simp: wire_try_write_def Let_def split: list.splits sum.splits)
      show ?thesis
      proof (cases "k = 0")
        case True
        with "1.prems" ne tw Inr w1 show ?thesis by (auto simp: flush_loop.simps [of w out n])
      next
        case False
        with "1.prems" ne tw Inr have "flush_loop w1 (drop k out) (n + k) = (r, w', out')"
          by (simp add: flush_loop.simps [of w out n])
        from "1.IH" [OF ne tw [symmetric] Inr False this] w1 k show ?thesis by auto
      qed
    qed
  qed
qed

lemma try_flush_spec:
  assumes "try_flush t = (r, t')"
  shows "written (inner t') @ outgoing t' = written (inner t) @ outgoing t"
    and "r = Ok m \<Longrightarrow> outgoing t' = []"
    and "incoming t' = incoming t" and "fcodec t' = fcodec t" and "fbackup t' = fbackup t"
  using assms flush_loop_spec [of "inner t" "outgoing t" 0]
  by (auto simp: try_flush_def split: prod.splits)

text \<open>What a write records in the backup.\<close>

definition record_sent :: "frame \<Rightarrow> backup \<Rightarrow> backup io" where
  "record_sent f b = (if frame_is_nonempty f then push_frame f (increment_sent_cnt b) else Ok b)"

lemma backup_wf_increment_sent [simp]: "backup_wf (increment_sent_cnt b) = backup_wf b"
  by (simp add: backup_wf_def increment_sent_cnt_def)

lemma backup_wf_increment_received [simp]: "backup_wf (increment_received_cnt b) = backup_wf b"
  by (simp add: backup_wf_def increment_received_cnt_def)

lemma record_sent_ok: "backup_wf b \<Longrightarrow> \<exists>b'. record_sent f b = Ok b' \<and> backup_wf b'"
  using push_frame_wf [of "increment_sent_cnt b" f] by (auto simp: record_sent_def)

lemma try_write_frame_spec:
  assumes enc: "enc (fcodec t) f = (Ok g, c')" and wf: "backup_wf (fbackup t)"
    and run: "try_write_frame enc f t = (r, t')"
  shows "written (inner t') @ outgoing t' = written (inner t) @ outgoing t @ frame_to_bytes g"
    and "fcodec t' = c'" and "incoming t' = incoming t"
    and "record_sent f (fbackup t) = Ok (fbackup t')"
    and "r = Ok () \<Longrightarrow> outgoing t' = []"
proof -
  obtain b where b: "record_sent f (fbackup t) = Ok b" using record_sent_ok [OF wf] by blast
  let ?t1 = "t\<lparr>fcodec := c', outgoing := frame_write g (outgoing t), fbackup := b\<rparr>"
  obtain x t2 where fl: "try_flush ?t1 = (x, t2)" by fastforce
  from run enc b fl have t': "t' = t2" and r: "r = map_sum id (\<lambda>_. ()) x"
    by (auto simp: try_write_frame_def record_sent_def Let_def split: if_splits sum.splits)
  from try_flush_spec [OF fl] b r t' show
    "written (inner t') @ outgoing t' = written (inner t) @ outgoing t @ frame_to_bytes g"
    and "fcodec t' = c'" and "incoming t' = incoming t"
    and "record_sent f (fbackup t) = Ok (fbackup t')"
    by (simp_all add: frame_write_append)
  show "r = Ok () \<Longrightarrow> outgoing t' = []"
    using try_flush_spec(2) [OF fl] r t' by (cases x) auto
qed

section \<open>Reading is independent of how the bytes arrive\<close>

text \<open>The script delivers the non-empty chunks \<open>css\<close> and then \<open>tl\<close>.\<close>

definition delivers :: "wire \<Rightarrow> bytes list \<Rightarrow> bytes io list \<Rightarrow> bool" where
  "delivers w css rs \<longleftrightarrow> reads w = map Ok css @ rs \<and> [] \<notin> set css"

lemma wire_try_read_delivers:
  assumes "delivers w (cs # css) rs" and "0 < n"
  shows "\<exists>bs css' w'. wire_try_read n w = (Ok bs, w') \<and> bs \<noteq> [] \<and> delivers w' css' rs
           \<and> cs @ concat css = bs @ concat css'"
proof (cases "n < length cs")
  case True
  with assms show ?thesis
    by (intro exI [of _ "take n cs"] exI [of _ "drop n cs # css"] exI [of _ "w\<lparr>reads := Ok (drop n cs) # map Ok css @ rs\<rparr>"])
      (auto simp: wire_try_read_def delivers_def)
next
  case False
  with assms show ?thesis
    by (intro exI [of _ cs] exI [of _ css] exI [of _ "w\<lparr>reads := map Ok css @ rs\<rparr>"])
      (auto simp: wire_try_read_def delivers_def)
qed

lemma read_next_frame_of_stream:
  assumes "frame_fits g" and "item g \<noteq> []" and "incoming t @ later = frame_to_bytes g @ rest"
  shows "read_next_frame dec t =
    (if length (incoming t) < header_size + frame_len g then (Ok None, t)
     else let (r, c') = dec (fcodec t) g in
       (map_sum id Some r, t\<lparr>incoming := drop (header_size + frame_len g) (incoming t), fcodec := c',
          fbackup := increment_received_cnt (fbackup t)\<rparr>))"
  using frame_read_of_stream [OF assms] assms(2)
  by (auto simp: read_next_frame_def Let_def split: sum.splits prod.splits)

lemma read_loop_of_stream:
  assumes "delivers (inner t) css rs" and "frame_fits g" and "item g \<noteq> []"
    and "incoming t @ concat css = frame_to_bytes g @ rest"
    and "length (incoming t) < header_size + frame_len g"
  shows "\<exists>css' t'. read_loop dec t = (map_sum id Some (fst (dec (fcodec t) g)), t')
     \<and> delivers (inner t') css' rs \<and> incoming t' @ concat css' = rest
     \<and> fcodec t' = snd (dec (fcodec t) g) \<and> fbackup t' = increment_received_cnt (fbackup t)"
  using assms
proof (induction "length (concat css)" arbitrary: t css rule: less_induct)
  case less
  have "length (frame_to_bytes g) \<le> length (incoming t @ concat css)"
    using less.prems(4) by simp
  with less.prems(5) obtain cs css1 where css: "css = cs # css1"
    by (cases css) auto
  from wire_try_read_delivers [OF less.prems(1) [unfolded css], of read_buf_size]
  obtain bs css2 w where rd: "wire_try_read read_buf_size (inner t) = (Ok bs, w)" and bs: "bs \<noteq> []"
    and dl: "delivers w css2 rs" and cat: "concat css = bs @ concat css2"
    by (auto simp: read_buf_size_def css)
  let ?t1 = "t\<lparr>inner := w, incoming := incoming t @ bs\<rparr>"
  have str: "incoming ?t1 @ concat css2 = frame_to_bytes g @ rest"
    using less.prems(4) cat by simp
  note nx = read_next_frame_of_stream [OF less.prems(2,3) str, of dec]
  show ?case
  proof (cases "length (incoming ?t1) < header_size + frame_len g")
    case True
    with nx have "read_next_frame dec ?t1 = (Ok None, ?t1)" by simp
    with rd bs have "read_loop dec t = read_loop dec ?t1"
      by (simp add: read_loop.simps [of dec t])
    moreover have "length (concat css2) < length (concat css)" using cat bs by simp
    ultimately show ?thesis
      using less.hyps [of css2 ?t1] dl less.prems(2,3) str True by auto
  next
    case False
    have "drop (header_size + frame_len g) (incoming ?t1) @ concat css2 = rest"
      using arg_cong [OF str, of "drop (header_size + frame_len g)"] False by simp
    moreover obtain d c' where d: "dec (fcodec t) g = (d, c')" by fastforce
    ultimately show ?thesis
      using nx rd bs False dl
      by (intro exI [of _ css2]) (cases d; auto simp: read_loop.simps [of dec t])
  qed
qed

lemma try_read_frame_of_stream:
  assumes "delivers (inner t) css rs" and "frame_fits g" and "item g \<noteq> []"
    and "incoming t @ concat css = frame_to_bytes g @ rest"
  shows "\<exists>css' t'. try_read_frame dec t = (map_sum id Some (fst (dec (fcodec t) g)), t')
     \<and> delivers (inner t') css' rs \<and> incoming t' @ concat css' = rest
     \<and> fcodec t' = snd (dec (fcodec t) g) \<and> fbackup t' = increment_received_cnt (fbackup t)"
proof (cases "length (incoming t) < header_size + frame_len g")
  case True
  with read_next_frame_of_stream [OF assms(2,3,4), of dec]
  have "try_read_frame dec t = read_loop dec t"
    by (simp add: try_read_frame_def)
  with read_loop_of_stream [OF assms True] show ?thesis by simp
next
  case False
  then have ne: "incoming t \<noteq> []" by (auto simp: header_size_def)
  have "drop (header_size + frame_len g) (incoming t) @ concat css = rest"
    using arg_cong [OF assms(4), of "drop (header_size + frame_len g)"] False by simp
  moreover obtain d c' where d: "dec (fcodec t) g = (d, c')" by fastforce
  ultimately show ?thesis
    using read_next_frame_of_stream [OF assms(2,3,4), of dec] False ne assms(1)
    by (intro exI [of _ css]) (cases d; auto simp: try_read_frame_def)
qed


section \<open>Sessions: many frames in a row\<close>

fun write_frames ::
  "('c \<Rightarrow> frame \<Rightarrow> frame io \<times> 'c) \<Rightarrow> frame list \<Rightarrow> 'c ftransport \<Rightarrow> unit io list \<times> 'c ftransport" where
  "write_frames enc [] t = ([], t)"
| "write_frames enc (f # fs) t =
     (let (r, t1) = try_write_frame enc f t; (rs, t2) = write_frames enc fs t1 in (r # rs, t2))"

fun read_frames ::
  "('c \<Rightarrow> frame \<Rightarrow> frame io \<times> 'c) \<Rightarrow> nat \<Rightarrow> 'c ftransport \<Rightarrow> frame option io list \<times> 'c ftransport" where
  "read_frames dec 0 t = ([], t)"
| "read_frames dec (Suc n) t =
     (let (r, t1) = try_read_frame dec t; (rs, t2) = read_frames dec n t1 in (r # rs, t2))"

abbreviation wire_bytes :: "frame list \<Rightarrow> bytes" where
  "wire_bytes gs \<equiv> concat (map frame_to_bytes gs)"

definition count_nonempty :: "frame list \<Rightarrow> nat" where
  "count_nonempty fs = length (filter frame_is_nonempty fs)"

lemma record_sent_counters:
  assumes "record_sent f b = Ok b'" and "\<not> frozen b"
  shows "sent_cnt b' = sent_cnt b + word_of_nat (count_nonempty [f])" and "\<not> frozen b'"
    and "received_cnt b' = received_cnt b"
  using assms
  by (auto simp: record_sent_def count_nonempty_def increment_sent_cnt_def dest: push_frame_frame
      split: if_splits)

lemma write_frames_stream:
  assumes "codec_map enc (fcodec t) fs = (Ok gs, c')" and "backup_wf (fbackup t)" and "\<not> frozen (fbackup t)"
    and "write_frames enc fs t = (rs, t')"
  shows "written (inner t') @ outgoing t' = written (inner t) @ outgoing t @ wire_bytes gs
     \<and> fcodec t' = c' \<and> backup_wf (fbackup t') \<and> \<not> frozen (fbackup t')
     \<and> sent_cnt (fbackup t') = sent_cnt (fbackup t) + word_of_nat (count_nonempty fs)"
  using assms
proof (induction fs arbitrary: t gs rs)
  case Nil
  then show ?case by (auto simp: count_nonempty_def)
next
  case (Cons f fs)
  from Cons.prems(1) obtain g c1 gs1 where e: "enc (fcodec t) f = (Ok g, c1)"
    and es: "codec_map enc c1 fs = (Ok gs1, c')" and gs: "gs = g # gs1"
    by (auto split: prod.splits sum.splits)
  obtain r t1 where tw: "try_write_frame enc f t = (r, t1)" by fastforce
  obtain rs1 where ws: "write_frames enc fs t1 = (rs1, t')"
    using Cons.prems(4) tw by (auto split: prod.splits)
  note one = try_write_frame_spec [OF e Cons.prems(2) tw]
  have wf: "backup_wf (fbackup t1)"
    using record_sent_ok [OF Cons.prems(2), of f] one(4) by auto
  note cnt = record_sent_counters [OF one(4) Cons.prems(3)]
  from Cons.IH [OF _ wf cnt(2) ws, of gs1] es one gs cnt show ?case
    by (simp add: count_nonempty_def)
qed

lemma read_frames_stream:
  assumes "codec_map dec (fcodec t) gs = (Ok fs, d')"
    and "delivers (inner t) css rs" and "incoming t @ concat css = wire_bytes gs @ rest"
    and "\<forall>g \<in> set gs. item g \<noteq> [] \<and> frame_fits g" and "\<not> frozen (fbackup t)"
  shows "\<exists>css' t'. read_frames dec (length gs) t = (map (\<lambda>f. Ok (Some f)) fs, t')
     \<and> delivers (inner t') css' rs \<and> incoming t' @ concat css' = rest \<and> fcodec t' = d'
     \<and> received_cnt (fbackup t') = received_cnt (fbackup t) + word_of_nat (length gs)"
  using assms
proof (induction gs arbitrary: t css fs)
  case Nil
  then show ?case by auto
next
  case (Cons g gs)
  from Cons.prems(1) obtain f d1 fs1 where e: "dec (fcodec t) g = (Ok f, d1)"
    and es: "codec_map dec d1 gs = (Ok fs1, d')" and fs: "fs = f # fs1"
    by (auto split: prod.splits sum.splits)
  from Cons.prems(4) have g: "frame_fits g" "item g \<noteq> []" by auto
  from Cons.prems(3) have str: "incoming t @ concat css = frame_to_bytes g @ wire_bytes gs @ rest" by simp
  from try_read_frame_of_stream [OF Cons.prems(2) g str, of dec] e obtain css1 t1 where
    rd: "try_read_frame dec t = (Ok (Some f), t1)" and dl: "delivers (inner t1) css1 rs"
    and inc: "incoming t1 @ concat css1 = wire_bytes gs @ rest"
    and c: "fcodec t1 = d1" and b: "fbackup t1 = increment_received_cnt (fbackup t)"
    by auto
  from Cons.IH [OF _ dl inc] es c b Cons.prems(4,5) rd fs show ?case
    by (fastforce simp: increment_received_cnt_def)
qed

text \<open>Where the stream ends inside a frame, or between frames, the next script result decides.\<close>

fun end_result :: "bytes io list \<Rightarrow> bytes \<Rightarrow> frame option io" where
  "end_result [] buf = Err WouldBlock"
| "end_result (Inl e # rs) buf = Inl e"
| "end_result (Inr bs # rs) buf = (if buf = [] then Ok None else Err UnexpectedEof)"

lemma read_loop_incomplete:
  assumes "delivers (inner t) css rs" and "incomplete (incoming t @ concat css)"
    and "\<forall>bs rs'. rs = Ok bs # rs' \<longrightarrow> bs = []"
  shows "\<exists>t'. read_loop dec t = (end_result rs (incoming t @ concat css), t')
           \<and> incoming t' = incoming t @ concat css"
  using assms(1,2)
proof (induction "length (concat css)" arbitrary: t css rule: less_induct)
  case less
  show ?case
  proof (cases css)
    case Nil
    with less.prems have "reads (inner t) = rs" by (simp add: delivers_def)
    with assms(3) Nil show ?thesis
      by (cases "(rs, incoming t)" rule: end_result.cases)
        (auto simp: read_loop.simps [of dec t] wire_try_read_def)
  next
    case (Cons cs css1)
    from wire_try_read_delivers [OF less.prems(1) [unfolded Cons], of read_buf_size]
    obtain bs css2 w where rd: "wire_try_read read_buf_size (inner t) = (Ok bs, w)" and bs: "bs \<noteq> []"
      and dl: "delivers w css2 rs" and cat: "concat css = bs @ concat css2"
      by (auto simp: read_buf_size_def Cons)
    let ?t1 = "t\<lparr>inner := w, incoming := incoming t @ bs\<rparr>"
    have str: "incoming ?t1 @ concat css2 = incoming t @ concat css" using cat by simp
    with incompleteD [OF less.prems(2), of "incoming ?t1" "concat css2"]
    have "read_next_frame dec ?t1 = (Ok None, ?t1)"
      by (simp add: read_next_frame_def)
    with rd bs have "read_loop dec t = read_loop dec ?t1"
      by (simp add: read_loop.simps [of dec t])
    moreover have "length (concat css2) < length (concat css)" using cat bs by simp
    ultimately show ?thesis
      using less.hyps [of css2 ?t1] dl str less.prems(2) by simp
  qed
qed

context frame_codec
begin

text \<open>Whatever compatible codecs the two ends use: order, completeness and counters of a session.\<close>

lemma delivery:
  assumes cd: "compat c d" and es: "codec_map enc c fs = (Ok gs, c')"
    and gs: "\<forall>g \<in> set gs. item g \<noteq> [] \<and> frame_fits g"
    and ws: "write_frames enc fs (ftransport_new w c) = (rs, t1)"
    and w: "written w = []" and flushed: "outgoing t1 = []"
    and v: "delivers v css []" "concat css = written (inner t1)"
  shows "\<exists>t2. read_frames dec (length fs) (ftransport_new v d) = (map (\<lambda>f. Ok (Some f)) fs, t2)
     \<and> fst (try_read_frame dec t2) = Err WouldBlock
     \<and> received_cnt (fbackup t2) = word_of_nat (length fs)
     \<and> sent_cnt (fbackup t1) = word_of_nat (count_nonempty fs)"
proof -
  have sent: "written (inner t1) @ outgoing t1 = wire_bytes gs"
    and cnt: "sent_cnt (fbackup t1) = word_of_nat (count_nonempty fs)"
    using write_frames_stream [OF _ _ _ ws, of gs c'] es w
    by (simp_all add: ftransport_new_def backup_new_def backup_wf_def)
  from dec_all_enc_all [OF cd es] obtain d' where ds: "codec_map dec d gs = (Ok fs, d')" by blast
  have len: "length gs = length fs" by (rule length_codec_map [OF es])
  have "\<exists>css' t2. read_frames dec (length gs) (ftransport_new v d) = (map (\<lambda>f. Ok (Some f)) fs, t2)
     \<and> delivers (inner t2) css' [] \<and> incoming t2 @ concat css' = []
     \<and> fcodec t2 = d' \<and> received_cnt (fbackup t2) = received_cnt (fbackup (ftransport_new v d)) + word_of_nat (length gs)"
    by (rule read_frames_stream [where css = css])
      (use ds v sent flushed gs in \<open>simp_all add: ftransport_new_def backup_new_def\<close>)
  then obtain css' t2 where
    rd: "read_frames dec (length fs) (ftransport_new v d) = (map (\<lambda>f. Ok (Some f)) fs, t2)"
    and dl: "delivers (inner t2) css' []" and rest: "incoming t2 @ concat css' = []"
    and rc: "received_cnt (fbackup t2) = word_of_nat (length fs)"
    by (auto simp: len ftransport_new_def backup_new_def)
  from read_loop_incomplete [OF dl, of dec] rest
  have "fst (try_read_frame dec t2) = Err WouldBlock"
    by (auto simp: try_read_frame_def incomplete_def frame_read_def header_size_def)
  with rd rc cnt show ?thesis by blast
qed

end

section \<open>A concrete session\<close>

text \<open>Two frames, the second empty, over a transport that blocks once; both ends encrypt.\<close>

definition example_wire :: "bytes io list \<Rightarrow> wire" where
  "example_wire rs = \<lparr>readies = [], reads = rs, writes = [Inl (IoError WouldBlock), Inr 900], written = []\<rparr>"

definition example_key :: codec where
  "example_key = EncryptionCodec (XChaCha [7] 0)"

definition example_sender :: "boxed_codec ftransport" where
  "example_sender = snd (write_frames boxed_encode [frame_new [1, 2], frame_empty]
     (ftransport_new (example_wire []) (example_crypto, example_key)))"

lemma example_sender_state:
  "outgoing example_sender = []"
  "written (inner example_sender) =
     [0, 0, 0, 0, 0, 0, 0, 27] @ replicate 24 0 @ [0, 1, 2] @ [0, 0, 0, 0, 0, 0, 0, 25] @ replicate 24 1 @ [0]"
  by (simp_all add: example_sender_def example_wire_def example_crypto_def example_key_def
      ftransport_new_def try_write_frame_def encryption_encode_def try_flush_def flush_loop.simps
      wire_try_write_def push_frame_def backup_new_def increment_sent_cnt_def default_max_backup_size_def
      frame_write_def frame_extend_def frame_len_def u64_to_be_bytes_def frame_empty_def Let_def be_bytes_8)


abbreviation example_frames :: "frame list" where
  "example_frames \<equiv> [frame_new [1, 2], frame_empty]"

definition example_inbox :: wire where
  "example_inbox = example_wire [Ok (take 11 (written (inner example_sender))),
     Ok (drop 11 (written (inner example_sender)))]"

lemma example_session:
  "\<exists>gs c'. codec_map boxed_encode (example_crypto, example_key) example_frames = (Ok gs, c')
     \<and> (\<forall>g \<in> set gs. item g \<noteq> [] \<and> frame_fits g)"
  by (simp add: example_key_def encryption_encode_def example_crypto_def frame_extend_def
      frame_fits_def frame_len_def header_size_def frame_empty_def)

lemma example_run:
  "write_frames boxed_encode example_frames
     (ftransport_new (example_wire []) (example_crypto, example_key)) =
   (fst (write_frames boxed_encode example_frames
     (ftransport_new (example_wire []) (example_crypto, example_key))), example_sender)"
  by (simp add: example_sender_def)

lemma example_arrival:
  "delivers example_inbox
     [take 11 (written (inner example_sender)), drop 11 (written (inner example_sender))] []"
  by (simp add: delivers_def example_inbox_def example_wire_def example_sender_state)

section \<open>Properties\<close>

text \<open>
  C1: frames written on one end and fully flushed are read on the other end in order, each once,
  and nothing else is read: for any chain of compression and encryption, any sequence of
  partial or blocked writes on the way out, and any chunking of the bytes on the way in.
\<close>

theorem frames_delivered_in_order:
  assumes "crypto_ok P" and "codec_compat c d"
    and "codec_map boxed_encode (P, c) fs = (Ok gs, c')"
    and "\<forall>g \<in> set gs. item g \<noteq> [] \<and> frame_fits g"
    and "write_frames boxed_encode fs (ftransport_new w (P, c)) = (rs, t1)"
    and "written w = []" and "outgoing t1 = []"
    and "delivers v css []" and "concat css = written (inner t1)"
  shows "\<exists>t2. read_frames boxed_decode (length fs) (ftransport_new v (P, d)) = (map (\<lambda>f. Ok (Some f)) fs, t2)
     \<and> fst (try_read_frame boxed_decode t2) = Err WouldBlock"
  using boxed.delivery [of "(P, c)" "(P, d)" fs gs c' w rs t1 v css] assms by auto

theorem frames_delivered_in_order_witness:
  "\<exists>t2. read_frames boxed_decode 2 (ftransport_new example_inbox (example_crypto, example_key)) = ([Ok (Some (frame_new [1, 2])), Ok (Some frame_empty)], t2)"
proof -
  obtain gs c' where gs: "codec_map boxed_encode (example_crypto, example_key) example_frames = (Ok gs, c')"
    "\<forall>g \<in> set gs. item g \<noteq> [] \<and> frame_fits g" using example_session by blast
  have "codec_compat example_key example_key" by (simp add: example_key_def)
  from frames_delivered_in_order [OF example_crypto_ok this gs example_run _ example_sender_state(1)
      example_arrival]
  show ?thesis by (auto simp: example_wire_def numeral_2_eq_2)
qed

text \<open>
  C2: the two ends count differently. The sender counts the frames whose raw item is non-empty,
  the receiver those whose encoded item is non-empty, so once a codec makes every encoded
  frame non-empty (encryption does) the receiver's count exceeds the sender's by the number of
  empty frames sent, the server's heartbeats.
\<close>

theorem received_count_exceeds_sent:
  assumes "crypto_ok P" and "codec_compat c d"
    and "codec_map boxed_encode (P, c) fs = (Ok gs, c')"
    and "\<forall>g \<in> set gs. item g \<noteq> [] \<and> frame_fits g"
    and "write_frames boxed_encode fs (ftransport_new w (P, c)) = (rs, t1)"
    and "written w = []" and "outgoing t1 = []"
    and "delivers v css []" and "concat css = written (inner t1)"
    and "read_frames boxed_decode (length fs) (ftransport_new v (P, d)) = (qs, t2)"
  shows "received_cnt (fbackup t2) - sent_cnt (fbackup t1) = word_of_nat (length (filter (\<lambda>f. item f = []) fs))"
proof -
  have "received_cnt (fbackup t2) = word_of_nat (length fs)"
    and "sent_cnt (fbackup t1) = word_of_nat (count_nonempty fs)"
    using boxed.delivery [of "(P, c)" "(P, d)" fs gs c' w rs t1 v css] assms by auto
  moreover have "length fs = count_nonempty fs + length (filter (\<lambda>f. item f = []) fs)"
    using sum_length_filter_compl [of "\<lambda>f. item f = []" fs] by (simp add: count_nonempty_def frame_is_nonempty_iff [abs_def])
  ultimately show ?thesis by simp
qed

theorem received_count_exceeds_sent_witness:
  "received_cnt (fbackup (snd (read_frames boxed_decode 2 (ftransport_new example_inbox (example_crypto, example_key)))))
     - sent_cnt (fbackup example_sender) = 1"
proof -
  obtain gs c' where gs: "codec_map boxed_encode (example_crypto, example_key) example_frames = (Ok gs, c')"
    "\<forall>g \<in> set gs. item g \<noteq> [] \<and> frame_fits g" using example_session by blast
  have c: "codec_compat example_key example_key" by (simp add: example_key_def)
  obtain qs t2 where rd: "read_frames boxed_decode (length example_frames)
      (ftransport_new example_inbox (example_crypto, example_key)) = (qs, t2)"
    by fastforce
  have "received_cnt (fbackup t2) - sent_cnt (fbackup example_sender)
      = word_of_nat (length (filter (\<lambda>f. item f = []) example_frames))"
    by (rule received_count_exceeds_sent [OF example_crypto_ok c gs example_run _ example_sender_state(1)
        example_arrival _ rd])
      (simp_all add: example_wire_def)
  with rd show ?thesis by (simp add: frame_empty_def numeral_2_eq_2)
qed



text \<open>
  C11: \<open>try_write_frame\<close> never loses, repeats or reorders bytes, whatever it returns: the bytes
  accepted by the inner transport followed by those still queued are what they were before,
  followed by the encoded frame; when it succeeds nothing is queued, and the backup holds the
  raw frame unless it is empty.
\<close>

theorem try_write_frame_conserves:
  assumes "backup_run xs backup_new = Ok (fbackup t)" and "enc (fcodec t) f = (Ok g, c')"
  shows "\<exists>r t' b. try_write_frame enc f t = (r, t')
     \<and> written (inner t') @ outgoing t' = written (inner t) @ outgoing t @ frame_to_bytes g
     \<and> (r = Ok () \<longrightarrow> outgoing t' = [])
     \<and> fbackup t' = (if item f = [] then fbackup t else b)
     \<and> push_frame f (increment_sent_cnt (fbackup t)) = Ok b"
proof -
  have wf: "backup_wf (fbackup t)" using backup_run_wf [OF backup_wf_new, of xs] assms(1) by auto
  obtain r t' where run: "try_write_frame enc f t = (r, t')" by fastforce
  obtain b where b: "push_frame f (increment_sent_cnt (fbackup t)) = Ok b"
    using push_frame_wf [of "increment_sent_cnt (fbackup t)" f] wf by auto
  note spec = try_write_frame_spec [OF assms(2) wf run]
  from spec(4) b have "fbackup t' = (if item f = [] then fbackup t else b)"
    by (auto simp: record_sent_def split: if_splits)
  with spec(1,5) run b show ?thesis by auto
qed

theorem try_write_frame_conserves_witness:
  "\<exists>r t'. try_write_frame boxed_encode (frame_new [5]) (ftransport_new (example_wire []) (example_crypto, PlainCodec)) = (r, t')
     \<and> written (inner t') @ outgoing t' = frame_to_bytes (frame_new [5])"
  using try_write_frame_conserves [of "[]" "ftransport_new (example_wire []) (example_crypto, PlainCodec)"
      boxed_encode "frame_new [5]" "frame_new [5]" "(example_crypto, PlainCodec)"]
  by (auto simp: ftransport_new_def example_wire_def)

end
