(* ===== verification/Synchronize.thy ===== *)
theory Synchronize
  imports Transport
begin

text \<open>
  The replay protocol of \<open>FramedTransport::synchronize\<close>: after a reconnect both ends exchange
  how many frames they sent, received and still hold, resend what the other misses, and queue
  what they are sent. The MessagePack encoding of the counters (crate \<open>rmp_serde\<close>) is a pair of
  parameters. The phases of the operation are definitions of their own, composed as the code
  composes them.
\<close>

section \<open>Sequencing of waiting operations\<close>

text \<open>\<open>op.await?\<close> followed by the rest: waiting and errors end the sequence.\<close>

definition then_wait ::
  "'a io option \<times> 's \<Rightarrow> ('a \<Rightarrow> 's \<Rightarrow> 'b io option \<times> 's) \<Rightarrow> 'b io option \<times> 's" where
  "then_wait p k =
     (case p of
        (None, s) \<Rightarrow> (None, s)
      | (Some (Inl e), s) \<Rightarrow> (Some (Inl e), s)
      | (Some (Inr x), s) \<Rightarrow> k x s)"

lemma then_wait_simps [simp]:
  "then_wait (None, s) k = (None, s)"
  "then_wait (Some (Inl e), s) k = (Some (Inl e), s)"
  "then_wait (Some (Inr x), s) k = k x s"
  by (simp_all add: then_wait_def)

lemma then_wait_Ok_iff:
  "then_wait p k = (Some (Ok y), s') \<longleftrightarrow> (\<exists>x s. p = (Some (Ok x), s) \<and> k x s = (Some (Ok y), s'))"
  by (auto simp: then_wait_def split: prod.splits option.splits sum.splits)

text \<open>\<open>write_frame_for\<close> and \<open>read_frame_as\<close>: a serialised value in a frame.\<close>

definition write_frame_for ::
  "('c \<Rightarrow> frame \<Rightarrow> frame io \<times> 'c) \<Rightarrow> ('v \<Rightarrow> bytes io) \<Rightarrow> 'v \<Rightarrow> 'c ftransport \<Rightarrow> unit io option \<times> 'c ftransport" where
  "write_frame_for enc ser v t =
     (case ser v of
        Inl e \<Rightarrow> (Some (Inl e), t)
      | Inr bs \<Rightarrow> ftransport_write_frame enc (frame_new bs) t)"

definition read_frame_as ::
  "('c \<Rightarrow> frame \<Rightarrow> frame io \<times> 'c) \<Rightarrow> (bytes \<Rightarrow> 'v io) \<Rightarrow> 'c ftransport \<Rightarrow> 'v option io option \<times> 'c ftransport" where
  "read_frame_as dec de t =
     then_wait (ftransport_read_frame dec t) (\<lambda>r t1.
       case r of
         None \<Rightarrow> (Some (Ok None), t1)
       | Some f \<Rightarrow> (Some (map_sum id Some (de (item f))), t1))"

section \<open>The phases\<close>

text \<open>(sent, received, available).\<close>

type_synonym stats = "u64 \<times> u64 \<times> u64"

definition backup_stats :: "backup \<Rightarrow> stats" where
  "backup_stats b = (sent_cnt b, received_cnt b, word_of_nat (frame_cnt b))"

definition resend_cnt :: "stats \<Rightarrow> stats \<Rightarrow> u64" where
  "resend_cnt own other =
     (case own of (sent, received, available) \<Rightarrow>
      case other of (other_sent, other_received, other_available) \<Rightarrow>
        min (saturating_sub sent other_received) available)"

definition expected_cnt :: "stats \<Rightarrow> stats \<Rightarrow> u64" where
  "expected_cnt own other =
     (case own of (sent, received, available) \<Rightarrow>
      case other of (other_sent, other_received, other_available) \<Rightarrow>
        min (saturating_sub other_sent received) other_available)"

text \<open>Every frame left in the backup is written with \<open>try_write_frame(..)?\<close>.\<close>

fun resend_frames ::
  "('c \<Rightarrow> frame \<Rightarrow> frame io \<times> 'c) \<Rightarrow> frame list \<Rightarrow> 'c ftransport \<Rightarrow> unit io \<times> 'c ftransport" where
  "resend_frames enc [] t = (Ok (), t)"
| "resend_frames enc (f # fs) t =
     (case try_write_frame enc f t of
        (Inl e, t1) \<Rightarrow> (Inl e, t1)
      | (Inr _, t1) \<Rightarrow> resend_frames enc fs t1)"

text \<open>The loop that receives the expected frames and queues them, encoded again, in \<open>incoming\<close>.\<close>

fun receive_expected ::
  "('c \<Rightarrow> frame \<Rightarrow> frame io \<times> 'c) \<Rightarrow> ('c \<Rightarrow> frame \<Rightarrow> frame io \<times> 'c) \<Rightarrow> nat \<Rightarrow> 'c ftransport
     \<Rightarrow> unit io option \<times> 'c ftransport" where
  "receive_expected enc dec 0 t = (Some (Ok ()), t)"
| "receive_expected enc dec (Suc n) t =
     then_wait (ftransport_read_frame dec t) (\<lambda>r t1.
       case r of
         None \<Rightarrow> (Some (Err UnexpectedEof), t1)
       | Some f \<Rightarrow>
           (case enc (fcodec t1) f of
              (Inl e, c) \<Rightarrow> (Some (Inl e), t1\<lparr>fcodec := c\<rparr>)
            | (Inr g, c) \<Rightarrow>
                receive_expected enc dec n (t1\<lparr>fcodec := c, incoming := frame_write g (incoming t1)\<rparr>)))"

definition catch_up_received :: "u64 \<Rightarrow> backup \<Rightarrow> backup" where
  "catch_up_received other_sent b =
     (if received_cnt b \<noteq> other_sent then set_received_cnt other_sent b else b)"

section \<open>The operation\<close>

definition synchronize_impl ::
  "('c \<Rightarrow> frame \<Rightarrow> frame io \<times> 'c) \<Rightarrow> ('c \<Rightarrow> frame \<Rightarrow> frame io \<times> 'c) \<Rightarrow> (stats \<Rightarrow> bytes io) \<Rightarrow>
     (bytes \<Rightarrow> stats io) \<Rightarrow> 'c ftransport \<Rightarrow> backup \<Rightarrow> (unit io option \<times> 'c ftransport) \<times> backup" where
  "synchronize_impl enc dec ser de this b =
     (let own = backup_stats b in
      case then_wait (write_frame_for enc ser own (ftransport_clear this)) (\<lambda>_ t. read_frame_as dec de t) of
        (None, t) \<Rightarrow> ((None, t), b)
      | (Some (Inl e), t) \<Rightarrow> ((Some (Inl e), t), b)
      | (Some (Inr None), t) \<Rightarrow> ((Some (Err UnexpectedEof), t), b)
      | (Some (Inr (Some other)), t) \<Rightarrow>
          (let b1 = truncate_front (unat (resend_cnt own other)) b in
           case resend_frames enc (frames b1) t of
             (Inl e, t1) \<Rightarrow> ((Some (Inl e), t1), b1)
           | (Inr _, t1) \<Rightarrow>
               (case then_wait (ftransport_flush t1)
                       (\<lambda>_ t2. receive_expected enc dec (unat (expected_cnt own other)) t2) of
                  (Some (Inr _), t3) \<Rightarrow> ((Some (Ok ()), t3), catch_up_received (fst other) b1)
                | (r, t3) \<Rightarrow> ((r, t3), b1))))"

text \<open>The backup is swapped out while the protocol runs and put back whatever its result.\<close>

definition synchronize ::
  "('c \<Rightarrow> frame \<Rightarrow> frame io \<times> 'c) \<Rightarrow> ('c \<Rightarrow> frame \<Rightarrow> frame io \<times> 'c) \<Rightarrow> (stats \<Rightarrow> bytes io) \<Rightarrow>
     (bytes \<Rightarrow> stats io) \<Rightarrow> 'c ftransport \<Rightarrow> unit io option \<times> 'c ftransport" where
  "synchronize enc dec ser de t =
     (case synchronize_impl enc dec ser de (t\<lparr>fbackup := backup_new\<rparr>) (fbackup t) of
        ((r, t'), b) \<Rightarrow> (r, t'\<lparr>fbackup := b\<rparr>))"

section \<open>The counters\<close>

lemma unat_min [simp]: "unat (min a b) = min (unat a) (unat (b :: 'a::len word))"
  by (simp add: min_def word_le_nat_alt)

lemma resend_eq_expected: "resend_cnt own other = expected_cnt other own"
  by (auto simp: resend_cnt_def expected_cnt_def split: prod.splits)

lemma unat_resend_cnt:
  "unat (resend_cnt (s, r, a) (s', r', a')) = min (unat s - unat r') (unat a)"
  by (simp add: resend_cnt_def)

text \<open>
  The history of an end: the non-empty frames it has written since the backup was new, of which
  the backup holds the last ones.
\<close>

definition records :: "backup \<Rightarrow> frame list \<Rightarrow> bool" where
  "records b hist \<longleftrightarrow> backup_wf b \<and> suffix (frames b) hist \<and> sent_cnt b = word_of_nat (length hist)"

lemma records_new: "records backup_new []"
  by (simp add: records_def backup_new_def backup_wf_def)

lemma records_sent:
  assumes "records b hist" and "\<not> frozen b" and "0 < max_backup_size b"
    and "record_sent f b = Ok b'"
  shows "records b' (if item f = [] then hist else hist @ [f])"
proof (cases "item f = []")
  case True
  with assms show ?thesis by (simp add: record_sent_def)
next
  case False
  let ?b = "increment_sent_cnt b"
  from assms False have p: "push_frame f ?b = Ok b'" by (simp add: record_sent_def)
  have wf: "backup_wf ?b" using assms(1) by (simp add: records_def)
  have "suffix (frames b') (frames b @ [f])"
    using push_frame_suffix [OF wf p] assms(2,3) by (simp add: increment_sent_cnt_def)
  moreover have "suffix (frames b @ [f]) (hist @ [f])"
    using assms(1) by (simp add: records_def)
  ultimately have "suffix (frames b') (hist @ [f])" by (rule suffix_order.trans)
  with push_frame_frame [OF p] push_frame_wf [OF wf, of f] p assms(1,2) False show ?thesis
    by (auto simp: records_def increment_sent_cnt_def)
qed

lemma records_written:
  assumes "records (fbackup t) hist" and "\<not> frozen (fbackup t)" and "0 < max_backup_size (fbackup t)"
    and "codec_map enc (fcodec t) fs = (Ok gs, c')" and "write_frames enc fs t = (rs, t')"
  shows "records (fbackup t') (hist @ filter frame_is_nonempty fs)"
  using assms
proof (induction fs arbitrary: t hist gs rs)
  case Nil
  then show ?case by simp
next
  case (Cons f fs)
  from Cons.prems(4) obtain g c1 gs1 where e: "enc (fcodec t) f = (Ok g, c1)"
    and es: "codec_map enc c1 fs = (Ok gs1, c')"
    by (auto split: prod.splits sum.splits)
  obtain r t1 where tw: "try_write_frame enc f t = (r, t1)" by fastforce
  obtain rs1 where ws: "write_frames enc fs t1 = (rs1, t')"
    using Cons.prems(5) tw by (auto split: prod.splits)
  have wf: "backup_wf (fbackup t)" using Cons.prems(1) by (simp add: records_def)
  note one = try_write_frame_spec [OF e wf tw]
  have fr: "\<not> frozen (fbackup t1)" by (rule record_sent_counters(2) [OF one(4) Cons.prems(2)])
  have mx: "0 < max_backup_size (fbackup t1)"
    using one(4) Cons.prems(3)
    by (auto simp: record_sent_def increment_sent_cnt_def dest: push_frame_frame split: if_splits)
  from Cons.IH [OF records_sent [OF Cons.prems(1,2,3) one(4)] fr mx _ ws, of gs1] es one(2)
  show ?case by (simp split: if_splits)
qed

lemma truncate_front_missing:
  assumes "records b hist" and "\<not> frozen b" and "length hist < 2 ^ 64" and "r \<le> length hist"
    and "n = min (length hist - r) (length (frames b))"
  shows "frames (truncate_front n b) = drop (max r (length hist - length (frames b))) hist"
proof -
  have wf: "backup_wf b" and suf: "suffix (frames b) hist" using assms(1) by (simp_all add: records_def)
  have fr: "frames b = drop (length hist - length (frames b)) hist"
    using suffix_imp_drop [OF suf] .
  have le: "length (frames b) \<le> length hist" using suf by (rule suffix_length_le)
  have "frames (truncate_front n b) = drop (length (frames b) - n) (frames b)"
    by (rule truncate_front_frames(1) [OF wf assms(2)])
  also have "\<dots> = drop (length (frames b) - n) (drop (length hist - length (frames b)) hist)"
    by (subst fr) simp
  also have "\<dots> = drop (max r (length hist - length (frames b))) hist"
  proof -
    have "length (frames b) - n + (length hist - length (frames b)) = max r (length hist - length (frames b))"
      using le assms(4,5) by linarith
    then show ?thesis by (metis drop_drop)
  qed
  finally show ?thesis .
qed


section \<open>Receiving the missing frames\<close>



section \<open>What a synchronisation puts on the wire\<close>

text \<open>Reading leaves everything written or pending alone.\<close>

abbreviation sent_bytes :: "'c ftransport \<Rightarrow> bytes" where
  "sent_bytes t \<equiv> written (inner t) @ outgoing t"

lemma ready_keeps:
  "ftransport_ready i t = (r, t') \<Longrightarrow> written (inner t') = written (inner t) \<and> outgoing t' = outgoing t"
  by (auto simp: ftransport_ready_def wire_ready_def Let_def split: sum.splits if_splits list.splits)

lemma read_next_frame_keeps:
  "read_next_frame dec t = (r, t') \<Longrightarrow> inner t' = inner t \<and> outgoing t' = outgoing t"
  by (auto simp: read_next_frame_def Let_def split: sum.splits option.splits prod.splits)

lemma read_loop_keeps:
  assumes "read_loop dec t = (r, t')"
  shows "written (inner t') = written (inner t) \<and> outgoing t' = outgoing t"
  using assms
proof (induction rule: read_loop_induct)
  case (Fail t e w)
  then show ?case by (auto dest: wire_try_read_frame)
next
  case (Closed t w)
  then show ?case by (auto dest: wire_try_read_frame)
next
  case (Done t bs w y t2)
  then show ?case by (auto dest!: read_next_frame_keeps wire_try_read_frame)
next
  case (Again t bs w t2 r t')
  then show ?case by (auto dest!: read_next_frame_keeps wire_try_read_frame)
qed

lemma try_read_frame_keeps:
  "try_read_frame dec t = (r, t') \<Longrightarrow> written (inner t') = written (inner t) \<and> outgoing t' = outgoing t"
  by (auto simp: try_read_frame_def dest!: read_next_frame_keeps dest: read_loop_keeps
      split: if_splits prod.splits sum.splits option.splits)

lemma ftransport_read_frame_keeps:
  "ftransport_read_frame dec t = (r, t') \<Longrightarrow> written (inner t') = written (inner t) \<and> outgoing t' = outgoing t"
proof (induction dec t arbitrary: r t' rule: ftransport_read_frame.induct)
  case (1 dec t)
  obtain x t1 where rd: "ftransport_ready (Interest True False) t = (x, t1)" by fastforce
  obtain y t2 where tr: "try_read_frame dec t1 = (y, t2)" by fastforce
  show ?case
    using "1.prems" rd tr ready_keeps [OF rd] try_read_frame_keeps [OF tr] "1.IH" [OF rd [symmetric] _ _ tr [symmetric]]
    by (subst (asm) ftransport_read_frame.simps) (auto split: option.splits sum.splits if_splits)
qed

lemma receive_expected_keeps:
  "receive_expected enc dec n t = (r, t') \<Longrightarrow> written (inner t') = written (inner t) \<and> outgoing t' = outgoing t"
proof (induction n arbitrary: t)
  case 0
  then show ?case by simp
next
  case (Suc n)
  obtain x t1 where rd: "ftransport_read_frame dec t = (x, t1)" by fastforce
  show ?case
    using Suc.prems rd ftransport_read_frame_keeps [OF rd]
    by (auto simp: then_wait_def dest!: Suc.IH split: option.splits sum.splits prod.splits)
qed

lemma ftransport_flush_sends:
  assumes "ftransport_flush t = (Some (Ok ()), t')"
  shows "written (inner t') = sent_bytes t \<and> outgoing t' = []"
  using assms
proof (induction t rule: ftransport_flush.induct)
  case (1 t)
  show ?case
  proof (cases "outgoing t = []")
    case True
    with "1.prems" show ?thesis by (simp add: ftransport_flush.simps [of t])
  next
    case ne: False
    with "1.prems" obtain x t1 where rd: "ftransport_ready (Interest False True) t = (Some (Ok x), t1)"
      by (auto simp: ftransport_flush.simps [of t] split: prod.splits option.splits sum.splits)
    obtain y t2 where fl: "try_flush t1 = (y, t2)" by fastforce
    note sp = try_flush_spec [OF fl] ready_keeps [OF rd]
    show ?thesis
    proof (cases "y = Err WouldBlock")
      case True
      with "1.prems" ne rd fl have "ftransport_flush t2 = (Some (Ok ()), t')"
        by (simp add: ftransport_flush.simps [of t])
      from "1.IH" [OF ne rd [symmetric] refl refl fl [symmetric] True this] sp show ?thesis by simp
    next
      case False
      with "1.prems" ne rd fl obtain m where "y = Ok m" "t' = t2"
        by (cases y) (auto simp: ftransport_flush.simps [of t])
      with sp show ?thesis by simp
    qed
  qed
qed

lemma try_write_frame_OkD:
  assumes "try_write_frame enc f t = (Ok (), t')"
  shows "\<exists>g c'. enc (fcodec t) f = (Ok g, c') \<and> fcodec t' = c' \<and> sent_bytes t' = sent_bytes t @ frame_to_bytes g"
proof -
  obtain g c' b t2 m where "enc (fcodec t) f = (Ok g, c')" and t': "t' = t2"
    and fl: "try_flush (t\<lparr>fcodec := c', outgoing := frame_write g (outgoing t), fbackup := b\<rparr>) = (Ok m, t2)"
    using assms by (fastforce simp: try_write_frame_def Let_def split: prod.splits sum.splits)
  with try_flush_spec [OF fl] show ?thesis by (simp add: frame_write_append)
qed

lemma resend_frames_OkD:
  assumes "resend_frames enc fs t = (Ok (), t')"
  shows "\<exists>gs c'. codec_map enc (fcodec t) fs = (Ok gs, c') \<and> sent_bytes t' = sent_bytes t @ wire_bytes gs"
  using assms
proof (induction fs arbitrary: t)
  case Nil
  then show ?case by simp
next
  case (Cons f fs)
  then obtain t1 where "try_write_frame enc f t = (Ok (), t1)" and r: "resend_frames enc fs t1 = (Ok (), t')"
    by (auto split: prod.splits sum.splits)
  from try_write_frame_OkD [OF this(1)] Cons.IH [OF r] show ?case by fastforce
qed

text \<open>The replay store of an end that has written the frames \<open>fs\<close>, cut for a peer that has \<open>r\<close>.\<close>

lemma resend_missing:
  assumes "codec_map enc c fs = (Ok gs, c')" and "write_frames enc fs (ftransport_new w c) = (rs, t)"
    and "length fs < 2 ^ 64" and "r \<le> length (filter frame_is_nonempty fs)"
  shows "frames (truncate_front (unat (resend_cnt (backup_stats (fbackup t)) (s', word_of_nat r, a'))) (fbackup t)) =
           drop (max r (length (filter frame_is_nonempty fs) - frame_cnt (fbackup t))) (filter frame_is_nonempty fs)"
    and "\<not> frozen (fbackup t)"
proof -
  let ?b = "fbackup t" and ?h = "filter frame_is_nonempty fs"
  have new: "records (fbackup (ftransport_new w c)) []" "\<not> frozen (fbackup (ftransport_new w c))"
    "0 < max_backup_size (fbackup (ftransport_new w c))"
    using records_new by (simp_all add: ftransport_new_def backup_new_def default_max_backup_size_def)
  have rec: "records ?b ?h"
    using records_written [OF new _ assms(2)] assms(1) by (simp add: ftransport_new_def)
  show fr: "\<not> frozen ?b"
    using write_frames_stream [OF _ _ new(2) assms(2)] assms(1) new(1)
    by (simp add: records_def ftransport_new_def)
  have h: "length ?h < 2 ^ 64" using assms(3) length_filter_le [of frame_is_nonempty fs] by linarith
  have k: "frame_cnt ?b \<le> length ?h"
    using rec by (auto simp: records_def frame_cnt_def dest: suffix_length_le)
  have "unat (resend_cnt (backup_stats ?b) (s', word_of_nat r, a')) = min (length ?h - r) (length (frames ?b))"
    using rec h k assms(4)
    by (simp add: backup_stats_def unat_resend_cnt records_def frame_cnt_def unat_u64_of_nat)
  from truncate_front_missing [OF rec fr h assms(4) this]
  show "frames (truncate_front (unat (resend_cnt (backup_stats ?b) (s', word_of_nat r, a'))) ?b) =
           drop (max r (length ?h - frame_cnt ?b)) ?h"
    by (simp add: frame_cnt_def)
qed

text \<open>The exchange of counters that opens a synchronisation.\<close>

abbreviation exchange_stats where
  "exchange_stats enc dec ser de this own \<equiv>
     then_wait (write_frame_for enc ser own (ftransport_clear this)) (\<lambda>_ t. read_frame_as dec de t)"

lemma synchronize_impl_OkD:
  assumes "exchange_stats enc dec ser de this (backup_stats b) = (Some (Ok (Some other)), t1)"
    and "synchronize_impl enc dec ser de this b = ((Some (Ok ()), t'), b')"
  shows "\<exists>b1 gs c'. b1 = truncate_front (unat (resend_cnt (backup_stats b) other)) b
     \<and> codec_map enc (fcodec t1) (frames b1) = (Ok gs, c')
     \<and> sent_bytes t' = sent_bytes t1 @ wire_bytes gs \<and> outgoing t' = []
     \<and> b' = catch_up_received (fst other) b1"
proof -
  let ?b1 = "truncate_front (unat (resend_cnt (backup_stats b) other)) b"
  from assms obtain t2 t3 where rs: "resend_frames enc (frames ?b1) t1 = (Ok (), t2)"
    and fl: "ftransport_flush t2 = (Some (Ok ()), t3)"
    and rc: "receive_expected enc dec (unat (expected_cnt (backup_stats b) other)) t3 = (Some (Ok ()), t')"
    and b': "b' = catch_up_received (fst other) ?b1"
    by (auto simp: synchronize_impl_def Let_def then_wait_Ok_iff split: prod.splits sum.splits option.splits)
  from resend_frames_OkD [OF rs] ftransport_flush_sends [OF fl] receive_expected_keeps [OF rc] b'
  show ?thesis by auto
qed

section \<open>Properties\<close>

text \<open>
  C12: what a synchronisation sends is exactly what the other end misses. If this end has written
  the frames \<open>fs\<close> and the peer answers that it counted the first \<open>r\<close> non-empty ones, then a
  successful synchronisation writes, after the exchange of counters, the encodings of the
  non-empty frames from the \<open>r\<close>-th on (or, when the store has evicted some of those, of all that
  it holds), keeps exactly these for a later replay, and takes over the peer's sent counter.
\<close>

theorem synchronize_resends_missing:
  assumes "codec_map enc c fs = (Ok gs, c')" and "write_frames enc fs (ftransport_new w c) = (rs, s)"
    and "length fs < 2 ^ 64" and "r \<le> length (filter frame_is_nonempty fs)"
    and "missing = drop (max r (length (filter frame_is_nonempty fs) - frame_cnt (fbackup s))) (filter frame_is_nonempty fs)"
    and "then_wait (write_frame_for enc ser (backup_stats (fbackup s)) (ftransport_clear this))
           (\<lambda>_ t. read_frame_as dec de t) = (Some (Ok (Some (s', word_of_nat r, a'))), t1)"
    and "synchronize_impl enc dec ser de this (fbackup s) = ((Some (Ok ()), t'), b')"
  shows "\<exists>es c''. codec_map enc (fcodec t1) missing = (Ok es, c'')
     \<and> written (inner t') = written (inner t1) @ outgoing t1 @ concat (map frame_to_bytes es)
     \<and> frames b' = missing \<and> received_cnt b' = s'"
proof -
  have fr: "\<not> frozen (truncate_front n (fbackup s))" for n
    using resend_missing(2) [OF assms(1-4)] by (simp add: truncate_front_def Let_def split: prod.splits)
  show ?thesis
    using synchronize_impl_OkD [OF assms(6,7)] resend_missing(1) [OF assms(1-4), of s' a'] assms(5) fr
    by (auto simp: catch_up_received_def set_received_cnt_def)
qed

text \<open>Counters as three bytes, the shape of small numbers in MessagePack without its array head.\<close>

definition example_ser :: "stats \<Rightarrow> bytes io" where
  "example_ser = (\<lambda>(a, b, c). Ok [ucast a, ucast b, ucast c])"

definition example_de :: "bytes \<Rightarrow> stats io" where
  "example_de bs = (case bs of [a, b, c] \<Rightarrow> Ok (ucast a, ucast b, ucast c) | _ \<Rightarrow> Err InvalidData)"

definition example_link :: wire where
  "example_link = \<lparr>readies = [Ok ready_readable, Ok ready_readable, Ok ready_readable],
     reads = [Ok (frame_to_bytes (frame_new [0, 1, 0]))], writes = [Inr 900, Inr 900], written = []\<rparr>"

definition example_history :: "boxed_codec ftransport" where
  "example_history = snd (write_frames boxed_encode [frame_new [1], frame_empty, frame_new [2]]
     (ftransport_new (example_wire []) (example_crypto, PlainCodec)))"

lemma example_history_backup:
  "fbackup example_history = backup_new\<lparr>current_backup_size := 2, frames := [frame_new [1], frame_new [2]], sent_cnt := 2\<rparr>"
  by (simp add: example_history_def example_wire_def ftransport_new_def try_write_frame_def try_flush_def
      flush_loop.simps wire_try_write_def push_frame_def backup_new_def increment_sent_cnt_def
      default_max_backup_size_def frame_write_def frame_extend_def frame_len_def u64_to_be_bytes_def
      frame_empty_def Let_def be_bytes_8)

lemmas sync_eval = example_link_def ftransport_new_def ftransport_clear_def write_frame_for_def read_frame_as_def
  ftransport_write_frame_def ftransport_read_frame.simps ftransport_ready_def wire_ready_def
  try_write_frame_def try_flush_def flush_loop.simps wire_try_write_def push_frame_def backup_new_def
  increment_sent_cnt_def increment_received_cnt_def default_max_backup_size_def frame_write_def frame_extend_def frame_len_def
  u64_to_be_bytes_def be_bytes_8 Let_def example_ser_def example_de_def backup_stats_def frame_cnt_def
  try_read_frame_def read_loop.simps wire_try_read_def read_buf_size_def header_size_def read_next_frame_def
  frame_available_def ready_readable_def ready_empty_def ready_union_def

lemma example_frame_read:
  "frame_read [] = Ok (None, [])"
  "frame_read (frame_to_bytes (frame_new [0, 1, 0])) = Ok (Some (frame_new [0, 1, 0]), [])"
  using frame_read_prefix [of "frame_new [0, 1, 0]" 0] frame_read_to_bytes [of "frame_new [0, 1, 0]" "[]"]
  by (simp_all add: frame_fits_def header_size_def frame_len_def)

definition example_answer :: "boxed_codec ftransport" where
  "example_answer = \<lparr>inner = \<lparr>readies = [Ok ready_readable], reads = [], writes = [Ok 900],
       written = [0, 0, 0, 0, 0, 0, 0, 3, 2, 0, 2]\<rparr>,
     fcodec = (example_crypto, PlainCodec), incoming = [], outgoing = [],
     fbackup = \<lparr>max_backup_size = default_max_backup_size, current_backup_size = 3,
       frames = [frame_new [2, 0, 2]], sent_cnt = 1, received_cnt = 1, frozen = False\<rparr>\<rparr>"

lemma example_exchange:
  "then_wait (write_frame_for boxed_encode example_ser (backup_stats (fbackup example_history))
       (ftransport_clear (ftransport_new example_link (example_crypto, PlainCodec))))
     (\<lambda>_ t. read_frame_as boxed_decode example_de t) = (Some (Ok (Some (0, 1, 0))), example_answer)"
  by (simp add: example_history_backup sync_eval example_frame_read example_answer_def)

definition example_resent :: "(unit io option \<times> boxed_codec ftransport) \<times> backup" where
  "example_resent = synchronize_impl boxed_encode boxed_decode example_ser example_de
     (ftransport_new example_link (example_crypto, PlainCodec)) (fbackup example_history)"

lemma example_resent_ok: "fst (fst example_resent) = Some (Ok ())"
  unfolding example_resent_def synchronize_impl_def Let_def example_exchange
  by (simp add: example_history_backup example_answer_def resend_cnt_def expected_cnt_def
      saturating_sub_def truncate_front_def ftransport_flush.simps sync_eval)

theorem synchronize_resends_missing_witness:
  "frames (snd example_resent) = [frame_new [2]]
   \<and> written (inner (snd (fst example_resent))) = [0, 0, 0, 0, 0, 0, 0, 3, 2, 0, 2] @ frame_to_bytes (frame_new [2])"
proof -
  let ?fs = "[frame_new [1], frame_empty, frame_new [2]]"
  obtain rs where w: "write_frames boxed_encode ?fs (ftransport_new (example_wire []) (example_crypto, PlainCodec)) = (rs, example_history)"
    unfolding example_history_def by (metis prod.collapse)
  have e: "codec_map boxed_encode (example_crypto, PlainCodec) ?fs = (Ok ?fs, (example_crypto, PlainCodec))"
    by simp
  have l: "length ?fs < 2 ^ 64" and r: "1 \<le> length (filter frame_is_nonempty ?fs)" by simp_all
  have ex: "then_wait (write_frame_for boxed_encode example_ser (backup_stats (fbackup example_history))
       (ftransport_clear (ftransport_new example_link (example_crypto, PlainCodec))))
     (\<lambda>_ t. read_frame_as boxed_decode example_de t) = (Some (Ok (Some (0, word_of_nat 1, 0))), example_answer)"
    using example_exchange by simp
  have run: "synchronize_impl boxed_encode boxed_decode example_ser example_de
     (ftransport_new example_link (example_crypto, PlainCodec)) (fbackup example_history)
       = ((Some (Ok ()), snd (fst example_resent)), snd example_resent)"
    using example_resent_ok unfolding example_resent_def by (metis prod.collapse)
  from synchronize_resends_missing [OF e w l r refl ex run]
  show ?thesis by (simp add: example_history_backup frame_cnt_def example_answer_def)
qed





end
