(* ===== verification/Handshake.thy ===== *)
theory Handshake
  imports Synchronize
begin

text \<open>
  The handshake of a framed transport: \<open>framed/handshake.rs\<close>, \<open>framed/exchange.rs\<close>,
  \<open>framed/exchange/salt.rs\<close> and the operations \<open>handshake\<close>, \<open>handshake_impl\<close> and
  \<open>exchange_keys_impl\<close> of \<open>framed.rs\<close>. The elliptic-curve and key-derivation primitives (crates
  \<open>p256\<close>, \<open>hkdf\<close>) and the MessagePack form of the three messages are parameters; random secrets
  and salts are arguments.
\<close>

section \<open>Key exchange\<close>

type_synonym salt = bytes

definition salt_try_from :: "bytes \<Rightarrow> salt io" where
  "salt_try_from bs = (if length bs = 32 then Ok bs else Err InvalidData)"

text \<open>The byte-wise XOR; \<open>try_from(..).unwrap()\<close> panics unless 32 bytes come out.\<close>

definition salt_bitxor :: "salt \<Rightarrow> salt \<Rightarrow> salt io" where
  "salt_bitxor a b =
     (case salt_try_from (map (\<lambda>(x, y). xor x y) (zip a b)) of Inl _ \<Rightarrow> panic | Inr s \<Rightarrow> Ok s)"

record ('sk, 'pk) kx_crypto =
  public_key :: "'sk \<Rightarrow> 'pk"
  encode_point :: "'pk \<Rightarrow> bytes"
  decode_point :: "bytes \<Rightarrow> 'pk option"
  diffie_hellman :: "'sk \<Rightarrow> 'pk \<Rightarrow> bytes"
  hkdf_sha256 :: "bytes \<Rightarrow> bytes \<Rightarrow> nat \<Rightarrow> bytes option"

record 'sk key_exchange =
  kx_secret :: 'sk
  kx_salt :: salt

definition pk_bytes :: "('sk, 'pk) kx_crypto \<Rightarrow> 'sk key_exchange \<Rightarrow> bytes" where
  "pk_bytes K kx = encode_point K (public_key K (kx_secret kx))"

definition derive_shared_secret ::
  "('sk, 'pk) kx_crypto \<Rightarrow> 'sk key_exchange \<Rightarrow> bytes \<Rightarrow> salt \<Rightarrow> bytes io" where
  "derive_shared_secret K kx pkb other_salt =
     (case decode_point K pkb of
        None \<Rightarrow> Err InvalidData
      | Some pk \<Rightarrow>
          bind_io (salt_bitxor (kx_salt kx) other_salt) (\<lambda>shared_salt.
            case hkdf_sha256 K shared_salt (diffie_hellman K (kx_secret kx) pk) 32 of
              None \<Rightarrow> Err InvalidData
            | Some key \<Rightarrow> Ok key))"

text \<open>What the primitives are relied on for: points survive encoding, and both ends share a secret.\<close>

definition kx_ok :: "('sk, 'pk) kx_crypto \<Rightarrow> bool" where
  "kx_ok K \<longleftrightarrow>
     (\<forall>s. decode_point K (encode_point K (public_key K s)) = Some (public_key K s))
     \<and> (\<forall>a b. diffie_hellman K a (public_key K b) = diffie_hellman K b (public_key K a))"

lemma salt_bitxor_commute: "length a = 32 \<Longrightarrow> length b = 32 \<Longrightarrow> salt_bitxor a b = salt_bitxor b a"
proof -
  assume "length a = 32" "length b = 32"
  then have "map (\<lambda>(x, y). xor x y) (zip a b) = map (\<lambda>(x, y). xor x y) (zip b a)"
    by (intro nth_equalityI) (simp_all add: xor.commute)
  then show ?thesis by (simp add: salt_bitxor_def)
qed

section \<open>Messages\<close>

datatype handshake =
    Client (preferred_compression_type: "compression_type option")
      (preferred_compression_level: "compression_level option")
      (preferred_encryption_type: "encryption_type option")
  | Server (compression_types: "compression_type list") (encryption_types: "encryption_type list")

definition handshake_client :: handshake where
  "handshake_client = Client None None (Some XChaCha20Poly1305)"

definition handshake_server :: handshake where
  "handshake_server = Server known_compressions known_encryptions"

definition is_client :: "handshake \<Rightarrow> bool" where
  "is_client h = (case h of Client _ _ _ \<Rightarrow> True | Server _ _ \<Rightarrow> False)"

definition is_server :: "handshake \<Rightarrow> bool" where
  "is_server h = (case h of Client _ _ _ \<Rightarrow> False | Server _ _ \<Rightarrow> True)"

record choice =
  choice_level :: "compression_level option"
  choice_compression :: "compression_type option"
  choice_encryption :: "encryption_type option"

record options =
  option_compressions :: "compression_type list"
  option_encryptions :: "encryption_type list"

type_synonym key_exchange_data = "bytes \<times> salt"

record messages =
  ser_options :: "options \<Rightarrow> bytes io"
  de_options :: "bytes \<Rightarrow> options io"
  ser_choice :: "choice \<Rightarrow> bytes io"
  de_choice :: "bytes \<Rightarrow> choice io"
  ser_key_data :: "key_exchange_data \<Rightarrow> bytes io"
  de_key_data :: "bytes \<Rightarrow> key_exchange_data io"

text \<open>Serialised messages are not empty, fit in a frame and read back.\<close>

definition serialises :: "('v \<Rightarrow> bytes io) \<Rightarrow> (bytes \<Rightarrow> 'v io) \<Rightarrow> bool" where
  "serialises ser de \<longleftrightarrow>
     (\<forall>v bs. ser v = Ok bs \<longrightarrow> bs \<noteq> [] \<and> frame_fits (frame_new bs) \<and> de bs = Ok v)"

definition messages_ok :: "messages \<Rightarrow> bool" where
  "messages_ok M \<longleftrightarrow>
     serialises (ser_options M) (de_options M) \<and> serialises (ser_choice M) (de_choice M)
     \<and> serialises (ser_key_data M) (de_key_data M)"

section \<open>The operations\<close>

definition exchange_keys ::
  "('sk, 'pk) kx_crypto \<Rightarrow> messages \<Rightarrow> 'sk key_exchange \<Rightarrow> boxed_codec ftransport
     \<Rightarrow> bytes io option \<times> boxed_codec ftransport" where
  "exchange_keys K M kx t =
     then_wait (write_frame_for boxed_encode (ser_key_data M) (pk_bytes K kx, kx_salt kx) t) (\<lambda>_ t1.
     then_wait (read_frame_as boxed_decode (de_key_data M) t1) (\<lambda>r t2.
       case r of
         None \<Rightarrow> (Some (Err UnexpectedEof), t2)
       | Some (pk, s) \<Rightarrow> (Some (derive_shared_secret K kx pk s), t2)))"

text \<open>The choice a client makes from the options of the server.\<close>

definition filter_option :: "('a \<Rightarrow> bool) \<Rightarrow> 'a option \<Rightarrow> 'a option" where
  "filter_option p x = (case x of Some y \<Rightarrow> if p y then Some y else None | None \<Rightarrow> None)"

definition client_choice ::
  "compression_type option \<Rightarrow> compression_level option \<Rightarrow> encryption_type option \<Rightarrow> options \<Rightarrow> choice" where
  "client_choice ct cl et opts =
     \<lparr>choice_level = cl,
      choice_compression = filter_option (\<lambda>ty. ty \<in> set (option_compressions opts)) ct,
      choice_encryption =
        (case filter_option (\<lambda>ty. ty \<in> set (option_encryptions opts)) et of
           Some ty \<Rightarrow> Some ty
         | None \<Rightarrow> List.find (\<lambda>ty. \<not> is_unknown_encryption ty) (option_encryptions opts))\<rparr>"

definition bundle_codecs :: "compression_codec option \<Rightarrow> encryption_codec option \<Rightarrow> codec" where
  "bundle_codecs c e =
     (case (c, e) of
        (Some c, Some e) \<Rightarrow> ChainCodec (EncryptionCodec e) (CompressionCodec c)
      | (Some c, None) \<Rightarrow> CompressionCodec c
      | (None, Some e) \<Rightarrow> EncryptionCodec e
      | (None, None) \<Rightarrow> PlainCodec)"

definition acquire_compression :: "choice \<Rightarrow> compression_codec option io" where
  "acquire_compression ch =
     (case choice_compression ch of
        None \<Rightarrow> Ok None
      | Some ty \<Rightarrow> map_sum id Some (compression_from_type_and_level ty
          (case choice_level ch of Some l \<Rightarrow> l | None \<Rightarrow> default_level)))"

text \<open>The common second half: codecs for the choice, with a key exchange if it asks for encryption.\<close>

definition finish_handshake ::
  "crypto \<Rightarrow> ('sk, 'pk) kx_crypto \<Rightarrow> messages \<Rightarrow> 'sk key_exchange \<Rightarrow> choice \<Rightarrow> boxed_codec ftransport
     \<Rightarrow> codec io option \<times> boxed_codec ftransport" where
  "finish_handshake P K M kx ch t =
     (case acquire_compression ch of
        Inl e \<Rightarrow> (Some (Inl e), t)
      | Inr c \<Rightarrow>
          (case choice_encryption ch of
             None \<Rightarrow> (Some (Ok (bundle_codecs c None)), t)
           | Some ty \<Rightarrow>
               if is_unknown_encryption ty then (Some (Err InvalidInput), t)
               else then_wait (exchange_keys K M kx t) (\<lambda>key t1.
                 (Some (map_sum id (\<lambda>e. bundle_codecs c (Some e)) (encryption_from_type_and_key P ty key)), t1))))"

definition handshake_impl ::
  "crypto \<Rightarrow> ('sk, 'pk) kx_crypto \<Rightarrow> messages \<Rightarrow> 'sk key_exchange \<Rightarrow> handshake \<Rightarrow> boxed_codec ftransport
     \<Rightarrow> codec io option \<times> boxed_codec ftransport" where
  "handshake_impl P K M kx h t =
     (case h of
        Client ct cl et \<Rightarrow>
          then_wait (read_frame_as boxed_decode (de_options M) t) (\<lambda>r t1.
            case r of
              None \<Rightarrow> (Some (Err UnexpectedEof), t1)
            | Some opts \<Rightarrow>
                (let ch = client_choice ct cl et opts in
                 then_wait (write_frame_for boxed_encode (ser_choice M) ch t1) (\<lambda>_ t2.
                   finish_handshake P K M kx ch t2)))
      | Server cts ets \<Rightarrow>
          then_wait (write_frame_for boxed_encode (ser_options M)
              \<lparr>option_compressions = cts, option_encryptions = ets\<rparr> t) (\<lambda>_ t1.
          then_wait (read_frame_as boxed_decode (de_choice M) t1) (\<lambda>r t2.
            case r of
              None \<Rightarrow> (Some (Err UnexpectedEof), t2)
            | Some ch \<Rightarrow> finish_handshake P K M kx ch t2)))"

text \<open>\<open>handshake\<close>: plain codec, empty buffers and a fresh backup for its duration. A panic unwinds.\<close>

definition perform_handshake ::
  "crypto \<Rightarrow> ('sk, 'pk) kx_crypto \<Rightarrow> messages \<Rightarrow> 'sk key_exchange \<Rightarrow> handshake \<Rightarrow> boxed_codec ftransport
     \<Rightarrow> unit io option \<times> boxed_codec ftransport" where
  "perform_handshake P K M kx h t =
     (let old_codec = fcodec t;
          t1 = ftransport_clear (set_codec (P, PlainCodec) t);
          old_backup = fbackup t1
      in case handshake_impl P K M kx h (t1\<lparr>fbackup := backup_new\<rparr>) of
           (None, t2) \<Rightarrow> (None, t2)
         | (Some (Inr c), t2) \<Rightarrow> (Some (Ok ()), (set_codec (P, c) t2)\<lparr>fbackup := old_backup\<rparr>)
         | (Some (Inl e), t2) \<Rightarrow>
             if e = Panic then (Some panic, t2)
             else (Some (Inl e), (ftransport_clear (set_codec old_codec t2))\<lparr>fbackup := old_backup\<rparr>))"

definition from_client_handshake ::
  "crypto \<Rightarrow> ('sk, 'pk) kx_crypto \<Rightarrow> messages \<Rightarrow> 'sk key_exchange \<Rightarrow> wire
     \<Rightarrow> unit io option \<times> boxed_codec ftransport" where
  "from_client_handshake P K M kx w =
     perform_handshake P K M kx handshake_client (ftransport_new w (P, PlainCodec))"

definition from_server_handshake ::
  "crypto \<Rightarrow> ('sk, 'pk) kx_crypto \<Rightarrow> messages \<Rightarrow> 'sk key_exchange \<Rightarrow> wire
     \<Rightarrow> unit io option \<times> boxed_codec ftransport" where
  "from_server_handshake P K M kx w =
     perform_handshake P K M kx handshake_server (ftransport_new w (P, PlainCodec))"

section \<open>Writing and reading a message in plain mode\<close>

definition plain_mode :: "crypto \<Rightarrow> boxed_codec ftransport \<Rightarrow> bool" where
  "plain_mode P t \<longleftrightarrow> fcodec t = (P, PlainCodec) \<and> backup_wf (fbackup t)"

text \<open>What the transport will still hear: its buffer and the chunks its script delivers.\<close>

definition hears :: "'c ftransport \<Rightarrow> bytes \<Rightarrow> bool" where
  "hears t bs \<longleftrightarrow> (\<exists>css. delivers (inner t) css [] \<and> incoming t @ concat css = bs)"

definition same_input :: "'c ftransport \<Rightarrow> 'c ftransport \<Rightarrow> bool" where
  "same_input t t' \<longleftrightarrow> incoming t' = incoming t \<and> reads (inner t') = reads (inner t)"

lemma hears_same_input: "same_input t t' \<Longrightarrow> hears t bs \<Longrightarrow> hears t' bs"
  by (simp add: same_input_def hears_def delivers_def)

lemma same_input_trans: "same_input t t' \<Longrightarrow> same_input t' t'' \<Longrightarrow> same_input t t''"
  by (simp add: same_input_def)

lemma ready_same: "ftransport_ready i t = (r, t') \<Longrightarrow> \<exists>rs. t' = t\<lparr>inner := (inner t)\<lparr>readies := rs\<rparr>\<rparr>"
  by (cases t; cases "inner t")
    (auto simp: ftransport_ready_def wire_ready_def Let_def split: sum.splits if_splits list.splits)

lemma try_flush_same_input: "try_flush t = (r, t') \<Longrightarrow> same_input t t'"
  using readies_flush_loop [of "inner t" "outgoing t" 0]
  by (auto simp: try_flush_def same_input_def split: prod.splits)

lemma flush_retry_Ok:
  assumes "flush_retry t = (Some (Ok ()), t')"
  shows "sent_bytes t' = sent_bytes t \<and> same_input t t' \<and> fcodec t' = fcodec t \<and> fbackup t' = fbackup t"
  using assms
proof (induction t rule: flush_retry.induct)
  case (1 t)
  then obtain x t1 where rd: "ftransport_ready (Interest False True) t = (Some (Ok x), t1)"
    by (auto simp: flush_retry.simps [of t] split: prod.splits option.splits sum.splits)
  obtain y t2 where fl: "try_flush t1 = (y, t2)" by fastforce
  from ready_same [OF rd] have r1: "sent_bytes t1 = sent_bytes t" "same_input t t1"
    "fcodec t1 = fcodec t" "fbackup t1 = fbackup t"
    by (auto simp: same_input_def)
  have s2: "sent_bytes t2 = sent_bytes t \<and> same_input t t2 \<and> fcodec t2 = fcodec t \<and> fbackup t2 = fbackup t"
    using try_flush_spec [OF fl] try_flush_same_input [OF fl] r1 same_input_trans by fastforce
  show ?case
  proof (cases "y = Err WouldBlock")
    case True
    with "1.prems" rd fl have "flush_retry t2 = (Some (Ok ()), t')"
      by (simp add: flush_retry.simps [of t])
    from "1.IH" [OF rd [symmetric] refl refl fl [symmetric] True this] s2 show ?thesis
      using same_input_trans by fastforce
  next
    case False
    with "1.prems" rd fl have "t' = t2" by (simp add: flush_retry.simps [of t])
    with s2 show ?thesis by simp
  qed
qed

lemma write_frame_Ok:
  assumes pm: "plain_mode P t" and run: "ftransport_write_frame boxed_encode f t = (Some (Ok ()), t')"
  shows "plain_mode P t' \<and> sent_bytes t' = sent_bytes t @ frame_to_bytes f \<and> same_input t t'"
proof -
  from run obtain x t1 where rd: "ftransport_ready (Interest False True) t = (Some (Ok x), t1)"
    by (auto simp: ftransport_write_frame_def split: prod.splits option.splits sum.splits)
  from ready_same [OF rd] have r1: "sent_bytes t1 = sent_bytes t" "same_input t t1"
    "fcodec t1 = fcodec t" "fbackup t1 = fbackup t"
    by (auto simp: same_input_def)
  obtain r t2 where tw: "try_write_frame boxed_encode f t1 = (r, t2)" by fastforce
  have e: "boxed_encode (fcodec t1) f = (Ok f, (P, PlainCodec))"
    using pm r1 by (simp add: plain_mode_def plain_encode_def)
  have wf: "backup_wf (fbackup t1)" using pm r1 by (simp add: plain_mode_def)
  note sp = try_write_frame_spec [OF e wf tw]
  have "backup_wf (fbackup t2)" using record_sent_ok [OF wf, of f] sp(4) by auto
  with sp(2) have pm2: "plain_mode P t2" by (simp add: plain_mode_def)
  have si: "same_input t1 t2"
    using tw e
    by (auto simp: try_write_frame_def Let_def same_input_def split: sum.splits prod.splits if_splits
        dest!: try_flush_same_input)
  show ?thesis
  proof (cases "r = Err WouldBlock")
    case True
    with run rd tw have "flush_retry t2 = (Some (Ok ()), t')" by (simp add: ftransport_write_frame_def)
    from flush_retry_Ok [OF this] sp(1) r1 si pm2 show ?thesis
      by (auto simp: plain_mode_def intro: same_input_trans)
  next
    case False
    with run rd tw have "t' = t2" by (simp add: ftransport_write_frame_def)
    with sp(1) r1 si pm2 show ?thesis by (auto intro: same_input_trans)
  qed
qed

lemma write_frame_for_Ok:
  assumes "plain_mode P t" and "write_frame_for boxed_encode ser v t = (Some (Ok ()), t')"
  shows "\<exists>bs. ser v = Ok bs \<and> plain_mode P t' \<and> sent_bytes t' = sent_bytes t @ frame_to_bytes (frame_new bs)
     \<and> same_input t t'"
  using assms write_frame_Ok [OF assms(1)]
  by (auto simp: write_frame_for_def split: sum.splits)

lemma backup_wf_received [simp]: "backup_wf (increment_received_cnt b) = backup_wf b"
  by (rule backup_wf_increment_received)

lemma read_frame_of_stream:
  assumes "plain_mode P t" and "hears t (frame_to_bytes g @ rest)" and "frame_fits g" and "item g \<noteq> []"
    and "ftransport_read_frame boxed_decode t = (Some (Ok r), t')"
  shows "r = Some g \<and> plain_mode P t' \<and> hears t' rest \<and> sent_bytes t' = sent_bytes t"
proof -
  from assms(5) obtain x t1 where rd: "ftransport_ready (Interest True False) t = (Some (Ok x), t1)"
    by (auto simp: ftransport_read_frame.simps [of boxed_decode t] split: prod.splits option.splits sum.splits)
  from ready_same [OF rd] have r1: "plain_mode P t1" "hears t1 (frame_to_bytes g @ rest)"
    using assms(1,2) by (auto simp: plain_mode_def hears_def delivers_def)
  from r1(2) obtain css where css: "delivers (inner t1) css []" "incoming t1 @ concat css = frame_to_bytes g @ rest"
    by (auto simp: hears_def)
  have d: "boxed_decode (fcodec t1) g = (Ok g, (P, PlainCodec))"
    using r1(1) by (simp add: plain_mode_def plain_decode_def)
  from try_read_frame_of_stream [OF css(1) assms(3,4) css(2), of boxed_decode] d
  obtain css' t2 where tr: "try_read_frame boxed_decode t1 = (Ok (Some g), t2)"
    and t2: "delivers (inner t2) css' []" "incoming t2 @ concat css' = rest"
      "fcodec t2 = (P, PlainCodec)" "fbackup t2 = increment_received_cnt (fbackup t1)" by auto
  have "r = Some g" and "t' = t2"
    using assms(5) rd tr by (auto simp: ftransport_read_frame.simps [of boxed_decode t])
  with t2 r1(1) ftransport_read_frame_keeps [OF assms(5)] show ?thesis
    by (auto simp: plain_mode_def hears_def)
qed

lemma read_frame_as_Ok:
  assumes "serialises ser de" and "ser v = Ok bs" and "plain_mode P t"
    and "hears t (frame_to_bytes (frame_new bs) @ rest)"
    and "read_frame_as boxed_decode de t = (Some (Ok r), t')"
  shows "r = Some v \<and> plain_mode P t' \<and> hears t' rest \<and> sent_bytes t' = sent_bytes t"
proof -
  have bs: "bs \<noteq> []" "frame_fits (frame_new bs)" "de bs = Ok v"
    using assms(1,2) by (auto simp: serialises_def)
  from assms(5) obtain q t1 where rd: "ftransport_read_frame boxed_decode t = (Some (Ok q), t1)"
    by (auto simp: read_frame_as_def then_wait_Ok_iff)
  from read_frame_of_stream [OF assms(3,4) bs(2) _ rd] bs(1)
  have "q = Some (frame_new bs)" "plain_mode P t1" "hears t1 rest" "sent_bytes t1 = sent_bytes t" by auto
  with assms(5) rd bs(3) show ?thesis by (auto simp: read_frame_as_def)
qed

section \<open>The two ends together\<close>

lemma read_frame_as_keeps: "read_frame_as dec de t = (r, t') \<Longrightarrow> sent_bytes t' = sent_bytes t"
  by (auto simp: read_frame_as_def then_wait_def split: prod.splits option.splits sum.splits
      dest!: ftransport_read_frame_keeps)

lemma map_sum_Inr_iff: "map_sum f g r = Inr y \<longleftrightarrow> (\<exists>x. r = Inr x \<and> y = g x)"
  by (cases r) auto

lemma plain_decode_mode: "boxed_decode (P, PlainCodec) f = (Ok f, (P, PlainCodec))"
  by (simp add: plain_decode_def)

lemma read_next_frame_plain: "plain_mode P t \<Longrightarrow> read_next_frame boxed_decode t = (r, t') \<Longrightarrow> plain_mode P t'"
  by (auto simp: read_next_frame_def plain_mode_def plain_decode_mode Let_def simp del: boxed_decode.simps
      split: sum.splits option.splits)

lemma read_loop_plain:
  assumes "read_loop boxed_decode t = (r, t')" and "plain_mode P t"
  shows "plain_mode P t'"
  using assms
proof (induction rule: read_loop_induct)
  case (Done t bs w y t2)
  then show ?case by (auto simp: plain_mode_def dest: read_next_frame_plain [rotated, of _ _ _ P])
next
  case (Again t bs w t2 r t')
  then have "plain_mode P (t\<lparr>inner := w, incoming := incoming t @ bs\<rparr>)" by (simp add: plain_mode_def)
  from read_next_frame_plain [OF this] Again show ?case by blast
qed (simp_all add: plain_mode_def)

lemma try_read_frame_plain: "plain_mode P t \<Longrightarrow> try_read_frame boxed_decode t = (r, t') \<Longrightarrow> plain_mode P t'"
  by (auto simp: try_read_frame_def dest: read_next_frame_plain read_loop_plain
      split: if_splits prod.splits sum.splits option.splits)

lemma ftransport_read_frame_plain:
  "ftransport_read_frame dec t = (r, t') \<Longrightarrow> dec = boxed_decode \<Longrightarrow> plain_mode P t \<Longrightarrow> plain_mode P t'"
proof (induction dec t arbitrary: r t' rule: ftransport_read_frame.induct)
  case (1 dec t)
  obtain x t1 where rd: "ftransport_ready (Interest True False) t = (x, t1)" by fastforce
  obtain y t2 where tr: "try_read_frame dec t1 = (y, t2)" by fastforce
  have p1: "plain_mode P t1" using ready_same [OF rd] "1.prems"(3) by (auto simp: plain_mode_def)
  have p2: "plain_mode P t2" using try_read_frame_plain [OF p1] tr "1.prems"(2) by simp
  show ?case
    using "1.prems" rd tr p1 p2 "1.IH" [OF rd [symmetric] _ _ tr [symmetric]]
    by (subst (asm) ftransport_read_frame.simps) (auto split: option.splits sum.splits if_splits)
qed

lemma read_frame_as_plain:
  "read_frame_as boxed_decode de t = (r, t') \<Longrightarrow> plain_mode P t \<Longrightarrow> plain_mode P t'"
  by (auto simp: read_frame_as_def then_wait_def split: prod.splits option.splits sum.splits
      dest: ftransport_read_frame_plain)

lemma finish_handshake_Ok:
  assumes "plain_mode P t" and "finish_handshake P K M kx ch t = (Some (Ok c), t')"
  obtains cc where "acquire_compression ch = Ok cc" and "choice_encryption ch = None"
      and "c = bundle_codecs cc None" and "t' = t"
  | cc bs t1 pk s key e where "acquire_compression ch = Ok cc"
      and "choice_encryption ch = Some XChaCha20Poly1305"
      and "ser_key_data M (pk_bytes K kx, kx_salt kx) = Ok bs" and "plain_mode P t1"
      and "sent_bytes t' = sent_bytes t @ frame_to_bytes (frame_new bs)" and "same_input t t1"
      and "read_frame_as boxed_decode (de_key_data M) t1 = (Some (Ok (Some (pk, s))), t')"
      and "derive_shared_secret K kx pk s = Ok key"
      and "encryption_from_type_and_key P XChaCha20Poly1305 key = Ok e"
      and "c = bundle_codecs cc (Some e)"
proof -
  from assms(2) obtain cc where cc: "acquire_compression ch = Ok cc"
    by (auto simp: finish_handshake_def split: sum.splits)
  show thesis
  proof (cases "choice_encryption ch")
    case None
    with assms(2) cc that(1) show thesis by (auto simp: finish_handshake_def)
  next
    case (Some ty)
    with assms(2) cc have ty: "ty = XChaCha20Poly1305"
      by (cases ty) (auto simp: finish_handshake_def is_unknown_encryption_def)
    with assms(2) cc Some obtain key e where ex: "exchange_keys K M kx t = (Some (Ok key), t')"
      and e: "encryption_from_type_and_key P ty key = Ok e" "c = bundle_codecs cc (Some e)"
      by (auto simp: finish_handshake_def is_unknown_encryption_def then_wait_Ok_iff map_sum_Inr_iff
          simp del: encryption_from_type_and_key.simps split: if_splits)
    from ex obtain t1 where w: "write_frame_for boxed_encode (ser_key_data M) (pk_bytes K kx, kx_salt kx) t = (Some (Ok ()), t1)"
      and r: "then_wait (read_frame_as boxed_decode (de_key_data M) t1) (\<lambda>r t2.
       case r of
         None \<Rightarrow> (Some (Err UnexpectedEof), t2)
       | Some (pk, s) \<Rightarrow> (Some (derive_shared_secret K kx pk s), t2)) = (Some (Ok key), t')"
      by (auto simp: exchange_keys_def then_wait_Ok_iff)
    from r obtain pk s where rf: "read_frame_as boxed_decode (de_key_data M) t1 = (Some (Ok (Some (pk, s))), t')"
      and d: "derive_shared_secret K kx pk s = Ok key"
      by (auto simp: then_wait_Ok_iff split: option.splits)
    from write_frame_for_Ok [OF assms(1) w] obtain bs where "ser_key_data M (pk_bytes K kx, kx_salt kx) = Ok bs"
      "plain_mode P t1" "sent_bytes t1 = sent_bytes t @ frame_to_bytes (frame_new bs)" "same_input t t1" by blast
    with that(2) [OF cc _ _ _ _ _ rf d] Some ty e read_frame_as_keeps [OF rf] show thesis by simp
  qed
qed

lemma derive_agrees:
  assumes "kx_ok K" and "length (kx_salt a) = 32" and "length (kx_salt b) = 32"
  shows "derive_shared_secret K a (pk_bytes K b) (kx_salt b) = derive_shared_secret K b (pk_bytes K a) (kx_salt a)"
proof -
  have "diffie_hellman K (kx_secret a) (public_key K (kx_secret b)) = diffie_hellman K (kx_secret b) (public_key K (kx_secret a))"
    using assms(1) by (simp add: kx_ok_def)
  moreover have "decode_point K (pk_bytes K x) = Some (public_key K (kx_secret x))" for x :: "'a key_exchange"
    using assms(1) by (simp add: kx_ok_def pk_bytes_def)
  ultimately show ?thesis
    using salt_bitxor_commute [OF assms(2,3)] by (simp add: derive_shared_secret_def)
qed

lemma bundle_codecs_compat: "codec_compat (bundle_codecs c e) (bundle_codecs c e)"
  by (simp add: bundle_codecs_def split: option.split)

text \<open>Both second halves, each hearing what the other says, end with the same codec.\<close>

lemma finish_agree:
  assumes K: "kx_ok K" and M: "serialises (ser_key_data M) (de_key_data M)"
    and salts: "length (kx_salt a) = 32" "length (kx_salt b) = 32"
    and pa: "plain_mode P ta" and pb: "plain_mode P tb"
    and fa: "finish_handshake P K M a ch ta = (Some (Ok ca), ta')"
    and fb: "finish_handshake P K M b ch tb = (Some (Ok cb), tb')"
    and ha: "hears ta xs" "sent_bytes tb' = sent_bytes tb @ xs"
    and hb: "hears tb ys" "sent_bytes ta' = sent_bytes ta @ ys"
  shows "ca = cb \<and> (\<exists>cc e. acquire_compression ch = Ok cc \<and> ca = bundle_codecs cc e \<and> (e = None \<longleftrightarrow> choice_encryption ch = None))"
proof (cases "choice_encryption ch")
  case None
  from finish_handshake_Ok [OF pa fa] None obtain cc where "acquire_compression ch = Ok cc" "ca = bundle_codecs cc None"
    by (metis option.distinct(1))
  moreover from finish_handshake_Ok [OF pb fb] None obtain cc' where "acquire_compression ch = Ok cc'" "cb = bundle_codecs cc' None"
    by (metis option.distinct(1))
  ultimately show ?thesis using None by auto
next
  case (Some ty)
  obtain cc bs t1 pk s key e where a: "acquire_compression ch = Ok cc"
      "ser_key_data M (pk_bytes K a, kx_salt a) = Ok bs" "plain_mode P t1"
      "sent_bytes ta' = sent_bytes ta @ frame_to_bytes (frame_new bs)" "same_input ta t1"
      "read_frame_as boxed_decode (de_key_data M) t1 = (Some (Ok (Some (pk, s))), ta')"
      "derive_shared_secret K a pk s = Ok key"
      "encryption_from_type_and_key P XChaCha20Poly1305 key = Ok e" "ca = bundle_codecs cc (Some e)"
    by (rule finish_handshake_Ok [OF pa fa]) (use Some in auto)
  obtain cc' bs' t1' pk' s' key' e' where b: "acquire_compression ch = Ok cc'"
      "ser_key_data M (pk_bytes K b, kx_salt b) = Ok bs'" "plain_mode P t1'"
      "sent_bytes tb' = sent_bytes tb @ frame_to_bytes (frame_new bs')" "same_input tb t1'"
      "read_frame_as boxed_decode (de_key_data M) t1' = (Some (Ok (Some (pk', s'))), tb')"
      "derive_shared_secret K b pk' s' = Ok key'"
      "encryption_from_type_and_key P XChaCha20Poly1305 key' = Ok e'" "cb = bundle_codecs cc' (Some e')"
    by (rule finish_handshake_Ok [OF pb fb]) (use Some in auto)
  have "hears t1 (frame_to_bytes (frame_new bs') @ [])" "hears t1' (frame_to_bytes (frame_new bs) @ [])"
    using ha hb a(4,5) b(4,5) by (auto dest: hears_same_input)
  from read_frame_as_Ok [OF M b(2) a(3) this(1) a(6)] read_frame_as_Ok [OF M a(2) b(3) this(2) b(6)]
  have "pk = pk_bytes K b" "s = kx_salt b" "pk' = pk_bytes K a" "s' = kx_salt a" by auto
  with derive_agrees [OF K salts] a b have "key = key'" by simp
  with a b Some show ?thesis by auto
qed

lemma handshake_impl_agrees:
  assumes K: "kx_ok K" and M: "messages_ok M"
    and salts: "length (kx_salt a) = 32" "length (kx_salt b) = 32"
    and pa: "plain_mode P ta" and pb: "plain_mode P tb"
    and fa: "handshake_impl P K M a (Client ct cl et) ta = (Some (Ok ca), ta')"
    and fb: "handshake_impl P K M b (Server cts ets) tb = (Some (Ok cb), tb')"
    and start: "sent_bytes ta = []" "sent_bytes tb = []"
    and ha: "hears ta (sent_bytes tb')" and hb: "hears tb (sent_bytes ta')"
    and ch: "ch = client_choice ct cl et \<lparr>option_compressions = cts, option_encryptions = ets\<rparr>"
  shows "ca = cb \<and> (\<exists>cc e. acquire_compression ch = Ok cc \<and> ca = bundle_codecs cc e \<and> (e = None \<longleftrightarrow> choice_encryption ch = None))"
proof -
  let ?opts = "\<lparr>option_compressions = cts, option_encryptions = ets\<rparr>"
  have so: "serialises (ser_options M) (de_options M)" and sc: "serialises (ser_choice M) (de_choice M)"
    and sk: "serialises (ser_key_data M) (de_key_data M)" using M by (simp_all add: messages_ok_def)
  from fb obtain b1 b2 chb where wo: "write_frame_for boxed_encode (ser_options M) ?opts tb = (Some (Ok ()), b1)"
    and rc: "read_frame_as boxed_decode (de_choice M) b1 = (Some (Ok (Some chb)), b2)"
    and finb: "finish_handshake P K M b chb b2 = (Some (Ok cb), tb')"
    by (auto simp: handshake_impl_def then_wait_Ok_iff split: option.splits)
  from fa obtain a1 a2 opts where ro: "read_frame_as boxed_decode (de_options M) ta = (Some (Ok (Some opts)), a1)"
    and wc: "write_frame_for boxed_encode (ser_choice M) (client_choice ct cl et opts) a1 = (Some (Ok ()), a2)"
    and fina: "finish_handshake P K M a (client_choice ct cl et opts) a2 = (Some (Ok ca), ta')"
    by (auto simp: handshake_impl_def then_wait_Ok_iff Let_def split: option.splits)
  from write_frame_for_Ok [OF pb wo] start(2) obtain bso where bso: "ser_options M ?opts = Ok bso" "plain_mode P b1"
    "sent_bytes b1 = frame_to_bytes (frame_new bso)" "same_input tb b1" by auto
  have mono: "\<exists>xs. sent_bytes t' = sent_bytes t @ xs"
    if "plain_mode P t" "finish_handshake P K M kx c t = (Some (Ok r), t')" for kx c t r t'
    by (rule finish_handshake_Ok [OF that]) auto
  have pb2: "plain_mode P b2" by (rule read_frame_as_plain [OF rc bso(2)])
  have pa1: "plain_mode P a1" by (rule read_frame_as_plain [OF ro pa])
  from write_frame_for_Ok [OF pa1 wc] start(1) read_frame_as_keeps [OF ro] obtain bsc
    where bsc: "ser_choice M (client_choice ct cl et opts) = Ok bsc" "plain_mode P a2"
      "sent_bytes a2 = frame_to_bytes (frame_new bsc)" "same_input a1 a2" by auto
  from mono [OF pb2 finb] bso(3) read_frame_as_keeps [OF rc] obtain xs
    where xs: "sent_bytes tb' = sent_bytes b2 @ xs" "sent_bytes tb' = frame_to_bytes (frame_new bso) @ xs" by auto
  from mono [OF bsc(2) fina] bsc(3) obtain ys
    where ys: "sent_bytes ta' = sent_bytes a2 @ ys" "sent_bytes ta' = frame_to_bytes (frame_new bsc) @ ys" by auto
  from read_frame_as_Ok [OF so bso(1) pa ha [unfolded xs(2)] ro]
  have opts: "opts = ?opts" and a1: "hears a1 xs" by auto
  have "hears b1 (frame_to_bytes (frame_new bsc) @ ys)"
    using hb bso(4) ys(2) by (auto intro: hears_same_input)
  from read_frame_as_Ok [OF sc bsc(1) bso(2) this rc]
  have chb: "chb = client_choice ct cl et opts" and b2: "hears b2 ys" by auto
  have fina': "finish_handshake P K M a ch a2 = (Some (Ok ca), ta')"
    and finb': "finish_handshake P K M b ch b2 = (Some (Ok cb), tb')"
    using fina finb chb opts ch by simp_all
  have "hears a2 xs" by (rule hears_same_input [OF bsc(4) a1])
  from finish_agree [OF K sk salts bsc(2) pb2 fina' finb' this xs(1) b2 ys(1)] show ?thesis .
qed

section \<open>A concrete session\<close>

text \<open>Primitives over byte lists and one-message serialisations, enough for a complete run.\<close>

definition example_kx :: "(bytes, bytes) kx_crypto" where
  "example_kx = \<lparr>public_key = id, encode_point = id, decode_point = Some,
     diffie_hellman = (\<lambda>a b. []), hkdf_sha256 = (\<lambda>s i n. Some (take n s))\<rparr>"

lemma example_kx_ok: "kx_ok example_kx"
  by (simp add: kx_ok_def example_kx_def)

definition client_kx :: "bytes key_exchange" where
  "client_kx = \<lparr>kx_secret = [1], kx_salt = replicate 32 1\<rparr>"

definition server_kx :: "bytes key_exchange" where
  "server_kx = \<lparr>kx_secret = [2], kx_salt = replicate 32 2\<rparr>"

definition example_options :: options where
  "example_options = \<lparr>option_compressions = [Gzip], option_encryptions = [XChaCha20Poly1305]\<rparr>"

definition example_choice :: choice where
  "example_choice = \<lparr>choice_level = None, choice_compression = None, choice_encryption = Some XChaCha20Poly1305\<rparr>"

definition example_messages :: messages where
  "example_messages = \<lparr>
     ser_options = (\<lambda>v. if v = example_options then Ok [1] else Err InvalidData),
     de_options = (\<lambda>bs. if bs = [1] then Ok example_options else Err InvalidData),
     ser_choice = (\<lambda>v. if v = example_choice then Ok [2] else Err InvalidData),
     de_choice = (\<lambda>bs. if bs = [2] then Ok example_choice else Err InvalidData),
     ser_key_data = (\<lambda>v. if v = ([1], replicate 32 1) then Ok [3] else if v = ([2], replicate 32 2) then Ok [4] else Err InvalidData),
     de_key_data = (\<lambda>bs. if bs = [3] then Ok ([1], replicate 32 1) else if bs = [4] then Ok ([2], replicate 32 2) else Err InvalidData)\<rparr>"

lemma example_messages_ok: "messages_ok example_messages"
  by (auto simp: messages_ok_def serialises_def example_messages_def frame_fits_def header_size_def
      frame_len_def split: if_splits)

definition example_side :: "bytes list \<Rightarrow> wire" where
  "example_side css = \<lparr>readies = [Ok ready_readable, Ok ready_readable, Ok ready_readable, Ok ready_readable],
     reads = map Ok css, writes = [Inr 90, Inr 90], written = []\<rparr>"

definition frame1 :: "byte \<Rightarrow> bytes" where
  "frame1 b = [0, 0, 0, 0, 0, 0, 0, 1, b]"

definition example_client :: "unit io option \<times> boxed_codec ftransport" where
  "example_client = perform_handshake example_crypto example_kx example_messages client_kx
     (Client None None (Some XChaCha20Poly1305))
     (ftransport_new (example_side [frame1 1, frame1 4]) (example_crypto, PlainCodec))"

definition example_server :: "unit io option \<times> boxed_codec ftransport" where
  "example_server = perform_handshake example_crypto example_kx example_messages server_kx
     (Server [Gzip] [XChaCha20Poly1305])
     (ftransport_new (example_side [frame1 2, frame1 3]) (example_crypto, PlainCodec))"

lemma frame1_bytes: "frame1 b = frame_to_bytes (frame_new [b])"
  by (simp add: frame1_def frame_to_bytes_def frame_write_def frame_len_def u64_to_be_bytes_def be_bytes_8)

lemma frame1_read: "frame_read (frame1 b) = Ok (Some (frame_new [b]), [])"
  using frame_read_to_bytes [of "frame_new [b]" "[]"]
  by (simp add: frame1_bytes frame_fits_def header_size_def frame_len_def)

lemmas handshake_eval = sync_eval example_frame_read(1) perform_handshake_def handshake_impl_def
  exchange_keys_def finish_handshake_def acquire_compression_def client_choice_def filter_option_def
  is_unknown_encryption_def set_codec_def example_messages_def example_options_def example_choice_def
  example_side_def client_kx_def server_kx_def pk_bytes_def example_kx_def derive_shared_secret_def
  bundle_codecs_def frame1_read [unfolded frame1_def] frame1_def

lemma example_cipher_accepts: "cipher_accepts example_crypto k \<longleftrightarrow> length k = 32"
  by (simp add: example_crypto_def)

lemma salt_example: "salt_bitxor (replicate 32 1) (replicate 32 2) = Ok (replicate 32 3)"
  "salt_bitxor (replicate 32 2) (replicate 32 1) = Ok (replicate 32 3)"
  by (simp_all add: salt_bitxor_def salt_try_from_def zip_replicate)

lemma example_client_run:
  "fst example_client = Some (Ok ()) \<and> written (inner (snd example_client)) = frame1 2 @ frame1 3
   \<and> outgoing (snd example_client) = []"
  by (simp add: example_client_def handshake_eval salt_example example_cipher_accepts)

lemma example_server_run:
  "fst example_server = Some (Ok ()) \<and> written (inner (snd example_server)) = frame1 1 @ frame1 4
   \<and> outgoing (snd example_server) = []"
  by (simp add: example_server_def handshake_eval salt_example example_cipher_accepts)

lemma perform_handshake_OkD:
  assumes "perform_handshake P K M kx h t = (Some (Ok ()), t')"
  obtains c t2 where "handshake_impl P K M kx h (ftransport_clear (set_codec (P, PlainCodec) t)\<lparr>fbackup := backup_new\<rparr>) = (Some (Ok c), t2)"
    and "t' = (set_codec (P, c) t2)\<lparr>fbackup := fbackup t\<rparr>"
  using assms
  by (auto simp: perform_handshake_def Let_def ftransport_clear_def set_codec_def
      split: prod.splits option.splits sum.splits if_splits)

section \<open>Properties\<close>

text \<open>
  C22: two ends that complete a handshake, each reading what the other wrote, speak the same
  language: their new codecs are the same one, built from the choice the client makes among the
  options of the server, encrypted exactly when that choice has an encryption, with a key both
  derived; the replay stores are untouched.
\<close>

theorem handshake_agrees:
  assumes "kx_ok K" and "messages_ok M" and "length (kx_salt a) = 32" and "length (kx_salt b) = 32"
    and "perform_handshake P K M a (Client ct cl et) ta = (Some (Ok ()), ta')"
    and "perform_handshake P K M b (Server cts ets) tb = (Some (Ok ()), tb')"
    and "written (inner ta) = []" and "written (inner tb) = []"
    and "delivers (inner ta) css []" and "concat css = written (inner tb') @ outgoing tb'"
    and "delivers (inner tb) dss []" and "concat dss = written (inner ta') @ outgoing ta'"
  shows "\<exists>c cc e. fcodec ta' = (P, c) \<and> fcodec tb' = (P, c) \<and> codec_compat c c \<and> c = bundle_codecs cc e
     \<and> acquire_compression (client_choice ct cl et \<lparr>option_compressions = cts, option_encryptions = ets\<rparr>) = Ok cc
     \<and> (e = None \<longleftrightarrow> choice_encryption (client_choice ct cl et \<lparr>option_compressions = cts, option_encryptions = ets\<rparr>) = None)
     \<and> fbackup ta' = fbackup ta \<and> fbackup tb' = fbackup tb"
proof -
  let ?start = "\<lambda>t. ftransport_clear (set_codec (P, PlainCodec) t)\<lparr>fbackup := backup_new\<rparr>"
  obtain ca ta2 where a: "handshake_impl P K M a (Client ct cl et) (?start ta) = (Some (Ok ca), ta2)"
    "ta' = (set_codec (P, ca) ta2)\<lparr>fbackup := fbackup ta\<rparr>"
    by (rule perform_handshake_OkD [OF assms(5)])
  obtain cb tb2 where b: "handshake_impl P K M b (Server cts ets) (?start tb) = (Some (Ok cb), tb2)"
    "tb' = (set_codec (P, cb) tb2)\<lparr>fbackup := fbackup tb\<rparr>"
    by (rule perform_handshake_OkD [OF assms(6)])
  have pm: "plain_mode P (?start t)" for t
    by (simp add: plain_mode_def ftransport_clear_def set_codec_def)
  have sent: "sent_bytes (?start ta) = []" "sent_bytes (?start tb) = []"
    using assms(7,8) by (simp_all add: ftransport_clear_def set_codec_def)
  have "hears (?start ta) (sent_bytes tb2)" "hears (?start tb) (sent_bytes ta2)"
    using assms(9-12) a(2) b(2) by (auto simp: hears_def ftransport_clear_def set_codec_def)
  from handshake_impl_agrees [OF assms(1-4) pm pm a(1) b(1) sent this refl] obtain cc e
    where "ca = cb" "ca = bundle_codecs cc e"
      "acquire_compression (client_choice ct cl et \<lparr>option_compressions = cts, option_encryptions = ets\<rparr>) = Ok cc"
      "e = None \<longleftrightarrow> choice_encryption (client_choice ct cl et \<lparr>option_compressions = cts, option_encryptions = ets\<rparr>) = None"
    by (elim conjE exE) (rule that)
  then show ?thesis using bundle_codecs_compat [of cc e]
    by (intro exI [of _ ca] exI [of _ cc] exI [of _ e]) (simp add: a(2) b(2) set_codec_def)
qed

theorem handshake_agrees_witness:
  "\<exists>e. fcodec (snd example_client) = (example_crypto, EncryptionCodec e)
     \<and> fcodec (snd example_server) = (example_crypto, EncryptionCodec e)"
proof -
  have salts: "length (kx_salt client_kx) = 32" "length (kx_salt server_kx) = 32"
    by (simp_all add: client_kx_def server_kx_def)
  have c: "perform_handshake example_crypto example_kx example_messages client_kx
     (Client None None (Some XChaCha20Poly1305))
     (ftransport_new (example_side [frame1 1, frame1 4]) (example_crypto, PlainCodec)) = (Some (Ok ()), snd example_client)"
    using example_client_run unfolding example_client_def by (metis prod.collapse)
  have s: "perform_handshake example_crypto example_kx example_messages server_kx
     (Server [Gzip] [XChaCha20Poly1305])
     (ftransport_new (example_side [frame1 2, frame1 3]) (example_crypto, PlainCodec)) = (Some (Ok ()), snd example_server)"
    using example_server_run unfolding example_server_def by (metis prod.collapse)
  from handshake_agrees [OF example_kx_ok example_messages_ok salts c s, of "[frame1 1, frame1 4]" "[frame1 2, frame1 3]"]
    example_client_run example_server_run
  show ?thesis
    by (auto simp: ftransport_new_def example_side_def delivers_def frame1_def acquire_compression_def
        client_choice_def filter_option_def bundle_codecs_def)
qed

text \<open>
  C23: a handshake that fails leaves no trace but the traffic: the codec is the one before, both
  buffers are empty and the replay store is as it was, at whichever step it failed.
\<close>

theorem failed_handshake_restores:
  assumes "perform_handshake P K M kx h t = (Some (Err k), t')"
  shows "fcodec t' = fcodec t \<and> incoming t' = [] \<and> outgoing t' = [] \<and> fbackup t' = fbackup t"
  using assms
  by (auto simp: perform_handshake_def Let_def ftransport_clear_def set_codec_def
      split: prod.splits option.splits sum.splits if_splits)

theorem failed_handshake_restores_witness:
  "let r = perform_handshake example_crypto example_kx example_messages server_kx (Server [Gzip] [UnknownEncryption])
     ((ftransport_new (example_side []) (example_crypto, PlainCodec))\<lparr>incoming := [7]\<rparr>)
   in fst r = Some (Err InvalidData) \<and> incoming (snd r) = [] \<and> fcodec (snd r) = (example_crypto, PlainCodec)"
proof -
  let ?t = "(ftransport_new (example_side []) (example_crypto, PlainCodec))\<lparr>incoming := [7]\<rparr>"
  let ?r = "perform_handshake example_crypto example_kx example_messages server_kx (Server [Gzip] [UnknownEncryption]) ?t"
  have f: "fst ?r = Some (Err InvalidData)"
    by (simp add: perform_handshake_def handshake_impl_def write_frame_for_def example_messages_def
        example_options_def Let_def)
  then have "?r = (Some (Err InvalidData), snd ?r)" by (metis prod.collapse)
  from failed_handshake_restores [OF this] f show ?thesis by (simp add: Let_def ftransport_new_def)
qed




end
