(* ===== verification/Text.thy ===== *)
theory Text
  imports Prelude
begin

text \<open>
  Text as the parsers of the repository see it. A \<open>str\<close> is a \<open>string\<close> of ASCII characters
  (codes below 128), where byte and character positions agree; the character classes of Rust's
  standard library are given for these. The operations are those of \<open>str\<close> and of the integer
  types that the code calls: \<open>split_once\<close>, \<open>trim\<close>, \<open>replace\<close>, \<open>parse::<uN>\<close>, \<open>to_string\<close>.
\<close>

named_theorems text_simps \<open>evaluation of text operations\<close>

abbreviation code :: "char \<Rightarrow> nat" where
  "code \<equiv> of_char"

section \<open>Character classes\<close>

definition is_digit :: "char \<Rightarrow> bool" where
  "is_digit c \<longleftrightarrow> 48 \<le> code c \<and> code c \<le> 57"

definition is_lower :: "char \<Rightarrow> bool" where
  "is_lower c \<longleftrightarrow> 97 \<le> code c \<and> code c \<le> 122"

definition is_upper :: "char \<Rightarrow> bool" where
  "is_upper c \<longleftrightarrow> 65 \<le> code c \<and> code c \<le> 90"

definition is_alphabetic :: "char \<Rightarrow> bool" where
  "is_alphabetic c \<longleftrightarrow> is_lower c \<or> is_upper c"

definition is_alphanumeric :: "char \<Rightarrow> bool" where
  "is_alphanumeric c \<longleftrightarrow> is_alphabetic c \<or> is_digit c"

definition is_white :: "char \<Rightarrow> bool" where
  "is_white c \<longleftrightarrow> (9 \<le> code c \<and> code c \<le> 13) \<or> code c = 32"

definition to_lower :: "char \<Rightarrow> char" where
  "to_lower c = (if is_upper c then char_of (code c + 32) else c)"

definition eq_ignore_case :: "string \<Rightarrow> string \<Rightarrow> bool" where
  "eq_ignore_case s t \<longleftrightarrow> map to_lower s = map to_lower t"

lemmas char_class_defs = is_digit_def is_lower_def is_upper_def is_alphabetic_def
  is_alphanumeric_def is_white_def

section \<open>Searching and splitting\<close>

definition starts_with :: "string \<Rightarrow> string \<Rightarrow> bool" where
  "starts_with p s \<longleftrightarrow> take (length p) s = p"

text \<open>\<open>s.split_once(needle)\<close>: the first occurrence.\<close>

fun split_once :: "string \<Rightarrow> string \<Rightarrow> (string \<times> string) option" where
  "split_once p [] = (if p = [] then Some ([], []) else None)"
| "split_once p (c # cs) =
     (if starts_with p (c # cs) then Some ([], drop (length p) (c # cs))
      else map_option (\<lambda>(a, b). (c # a, b)) (split_once p cs))"

fun contains :: "string \<Rightarrow> string \<Rightarrow> bool" where
  "contains p [] = (p = [])"
| "contains p (c # cs) \<longleftrightarrow> starts_with p (c # cs) \<or> contains p cs"

definition trim_start :: "string \<Rightarrow> string" where
  "trim_start s = dropWhile is_white s"

definition trim_end :: "string \<Rightarrow> string" where
  "trim_end s = rev (dropWhile is_white (rev s))"

definition trim :: "string \<Rightarrow> string" where
  "trim s = trim_end (trim_start s)"

definition strip_prefix :: "string \<Rightarrow> string \<Rightarrow> string option" where
  "strip_prefix p s = (if starts_with p s then Some (drop (length p) s) else None)"

lemma split_once_SomeD: "split_once p s = Some (a, b) \<Longrightarrow> s = a @ p @ b"
  by (induction p s arbitrary: a rule: split_once.induct)
    (auto simp: starts_with_def split: if_splits, metis append_take_drop_id)

lemma contains_split: "contains p s \<longleftrightarrow> split_once p s \<noteq> None"
  by (induction p s rule: split_once.induct) auto

lemma starts_with_append: "starts_with p s \<Longrightarrow> starts_with p (s @ t)"
proof -
  assume p: "starts_with p s"
  then have "length (take (length p) s) = length p" by (simp only: starts_with_def)
  then have "length p \<le> length s" by simp
  with p show ?thesis by (simp add: starts_with_def)
qed

lemma split_once_None_mono:
  "split_once p (s @ t) = None \<Longrightarrow> p \<noteq> [] \<Longrightarrow> split_once p s = None"
proof (induction p s rule: split_once.induct)
  case (2 p c cs)
  with starts_with_append [of p "c # cs" t] show ?case by (auto split: if_splits)
qed simp

text \<open>A single character as the needle.\<close>

lemma starts_with_single: "starts_with [x] (c # cs) \<longleftrightarrow> c = x"
  by (auto simp: starts_with_def)

lemma split_once_char: "x \<notin> set a \<Longrightarrow> split_once [x] (a @ x # b) = Some (a, b)"
  by (induction a) (auto simp: starts_with_single)

lemma split_once_char_None: "x \<notin> set s \<Longrightarrow> split_once [x] s = None"
  by (induction s) (auto simp: starts_with_single)

lemma trim_start_nonwhite: "s = [] \<or> \<not> is_white (hd s) \<Longrightarrow> trim_start s = s"
  by (cases s) (auto simp: trim_start_def)

lemma trim_end_nonwhite: "s = [] \<or> \<not> is_white (last s) \<Longrightarrow> trim_end s = s"
  by (cases s rule: rev_cases) (auto simp: trim_end_def)

lemma trim_nonwhite:
  "s = [] \<or> \<not> is_white (hd s) \<and> \<not> is_white (last s) \<Longrightarrow> trim s = s"
  by (auto simp: trim_def trim_start_nonwhite trim_end_nonwhite)

section \<open>Numbers as text\<close>

definition digit_char :: "nat \<Rightarrow> char" where
  "digit_char d = char_of (if d < 10 then 48 + d else 87 + d)"

definition digit_val :: "nat \<Rightarrow> char \<Rightarrow> nat option" where
  "digit_val r c =
     (let v = (if is_digit c then code c - 48 else if is_lower c then code c - 87
               else if is_upper c then code c - 55 else 36)
      in if v < r then Some v else None)"

function show_radix :: "nat \<Rightarrow> nat \<Rightarrow> string" where
  "show_radix r n =
     (if r < 2 \<or> n < r then [digit_char n] else show_radix r (n div r) @ [digit_char (n mod r)])"
  by pat_completeness auto
termination
  by (relation "measure snd") auto

declare show_radix.simps [simp del]

abbreviation show_dec :: "nat \<Rightarrow> string" where
  "show_dec \<equiv> show_radix 10"

lemma code_digit_char: "d < 16 \<Longrightarrow> code (digit_char d) = (if d < 10 then 48 + d else 87 + d)"
  by (simp add: digit_char_def)

lemma digit_val_digit_char [simp]: "d < r \<Longrightarrow> r \<le> 16 \<Longrightarrow> digit_val r (digit_char d) = Some d"
  by (auto simp: digit_val_def code_digit_char is_digit_def is_lower_def Let_def)

lemma show_radix_nonempty [simp]: "show_radix r n \<noteq> []"
  by (subst show_radix.simps) simp

lemma show_radix_digits:
  "2 \<le> r \<Longrightarrow> r \<le> 16 \<Longrightarrow> c \<in> set (show_radix r n) \<Longrightarrow> \<exists>d<r. c = digit_char d"
proof (induction r n rule: show_radix.induct)
  case (1 r n)
  show ?case
  proof (cases "n < r")
    case True
    with "1.prems" show ?thesis by (auto simp: show_radix.simps [of r n])
  next
    case False
    with "1.prems" have "c \<in> set (show_radix r (n div r)) \<or> c = digit_char (n mod r)"
      by (auto simp: show_radix.simps [of r n] split: if_splits)
    moreover have "n mod r < r" using "1.prems" by simp
    ultimately show ?thesis using "1.IH" "1.prems" False by (metis not_less)
  qed
qed

lemma show_dec_digits: "c \<in> set (show_dec n) \<Longrightarrow> is_digit c"
  using show_radix_digits [of 10 c n] by (auto simp: is_digit_def code_digit_char)

text \<open>\<open>from_str_radix\<close> of an unsigned integer type with greatest value \<open>mx\<close>.\<close>

datatype parse_int_error = EmptyInt | InvalidDigit | PosOverflow

fun parse_digits :: "nat \<Rightarrow> nat \<Rightarrow> nat \<Rightarrow> string \<Rightarrow> parse_int_error + nat" where
  "parse_digits r mx acc [] = Inr acc"
| "parse_digits r mx acc (c # cs) =
     (case digit_val r c of
        None \<Rightarrow> Inl InvalidDigit
      | Some d \<Rightarrow> if mx < acc * r + d then Inl PosOverflow else parse_digits r mx (acc * r + d) cs)"

definition parse_uint :: "nat \<Rightarrow> string \<Rightarrow> parse_int_error + nat" where
  "parse_uint mx s =
     (if s = [] then Inl EmptyInt
      else if s = ''+'' \<or> s = ''-'' then Inl InvalidDigit
      else parse_digits 10 mx 0 (if hd s = CHR ''+'' then tl s else s))"

definition parse_u16 :: "string \<Rightarrow> parse_int_error + u16" where
  "parse_u16 s = map_sum id word_of_nat (parse_uint (2 ^ 16 - 1) s)"

definition show_word :: "'a::len word \<Rightarrow> string" where
  "show_word w = show_dec (unat w)"

lemma parse_digits_append:
  "parse_digits r mx acc (xs @ ys) = bind_io (parse_digits r mx acc xs) (\<lambda>a. parse_digits r mx a ys)"
  by (induction xs arbitrary: acc) (auto split: option.splits)

lemma parse_digits_show:
  "2 \<le> r \<Longrightarrow> r \<le> 16 \<Longrightarrow> n \<le> mx \<Longrightarrow> parse_digits r mx 0 (show_radix r n) = Inr n"
proof (induction r n rule: show_radix.induct)
  case (1 r n)
  show ?case
  proof (cases "n < r")
    case True
    with "1.prems" show ?thesis by (simp add: show_radix.simps [of r n])
  next
    case False
    have "parse_digits r mx 0 (show_radix r (n div r)) = Inr (n div r)"
      using "1.IH" "1.prems" False by (simp add: div_le_dividend order_trans [OF div_le_dividend])
    moreover have "n mod r < r" using "1.prems" by simp
    ultimately show ?thesis
      using "1.prems" False by (simp add: show_radix.simps [of r n] parse_digits_append)
  qed
qed

lemma show_dec_hd: "is_digit (hd (show_dec n))"
  by (rule show_dec_digits [of _ n]) simp

lemma parse_uint_show_dec:
  assumes "n \<le> mx"
  shows "parse_uint mx (show_dec n) = Inr n"
proof -
  have d: "is_digit (hd (show_dec n))" by (rule show_dec_hd)
  have "show_dec n \<noteq> ''+''" "show_dec n \<noteq> ''-''" "hd (show_dec n) \<noteq> CHR ''+''"
    using d by (auto simp: is_digit_def)
  with parse_digits_show [of 10 n mx] assms show ?thesis by (simp add: parse_uint_def)
qed

lemma parse_u16_show [simp]: "parse_u16 (show_word w) = Inr (w :: u16)"
proof -
  have "unat w \<le> 2 ^ 16 - 1" using unsigned_less [of w, where ?'a = nat] by simp
  then show ?thesis by (simp add: parse_u16_def show_word_def parse_uint_show_dec)
qed

lemma parse_digits_error_char:
  "c \<in> set s \<Longrightarrow> digit_val r c = None \<Longrightarrow> \<exists>e. parse_digits r mx acc s = Inl e"
  by (induction s arbitrary: acc) (auto split: option.splits)

lemma parse_u16_error_char:
  assumes "c \<in> set s" and "digit_val 10 c = None" and "c \<noteq> CHR ''+''"
  shows "\<exists>e. parse_u16 s = Inl e"
proof -
  have "c \<in> set (if hd s = CHR ''+'' then tl s else s)" using assms by (cases s) auto
  from parse_digits_error_char [OF this assms(2)]
  obtain e where "parse_digits 10 (2 ^ 16 - 1) 0 (if hd s = CHR ''+'' then tl s else s) = Inl e" by blast
  then show ?thesis using assms(1) by (auto simp: parse_u16_def parse_uint_def)
qed

end
