(* ===== verification/Auth.thy ===== *)
theory Auth
  imports Synchronize Text
begin

text \<open>
  Authentication: the messages (\<open>auth/msg.rs\<close>), the verifier and its methods (\<open>auth/methods.rs\<close>,
  \<open>methods/none.rs\<close>, \<open>methods/static_key.rs\<close>), the client's handlers (\<open>auth/handler.rs\<close> and
  \<open>handler/methods/\<close>), and both ends over a framed transport (\<open>net/authentication.rs\<close>). A framed
  transport that carries serialised messages is seen here as a typed link: the messages (or end,
  or failures) its reads will give and the outcomes of its writes. A key is compared after the
  \<open>FromStr\<close> of its type, a parameter.
\<close>

section \<open>Messages\<close>

datatype verification_kind = HostKind | UnknownKind

datatype auth_error_kind = Fatal | NonFatal

record auth_error =
  error_kind :: auth_error_kind
  error_text :: string

definition error_fatal :: "string \<Rightarrow> auth_error" where
  "error_fatal t = \<lparr>error_kind = Fatal, error_text = t\<rparr>"

definition error_non_fatal :: "string \<Rightarrow> auth_error" where
  "error_non_fatal t = \<lparr>error_kind = NonFatal, error_text = t\<rparr>"


definition into_io_permission_denied :: "auth_error \<Rightarrow> io_kind" where
  "into_io_permission_denied e = PermissionDenied"

record question =
  question_label :: string
  question_text :: string
  question_options :: "string \<rightharpoonup> string"

definition question_new :: "string \<Rightarrow> question" where
  "question_new t = \<lparr>question_label = t, question_text = t, question_options = Map.empty\<rparr>"

record challenge =
  questions :: "question list"
  challenge_options :: "string \<rightharpoonup> string"

datatype authentication =
    Initialization "string list"
  | StartMethod string
  | Challenge challenge
  | Verification verification_kind string
  | Info string
  | AuthError auth_error
  | Finished

datatype authentication_response =
    InitializationResponse "string list"
  | ChallengeResponse "string list"
  | VerificationResponse bool

section \<open>The interface of an authenticator\<close>

record 's authenticator =
  initialize :: "string list \<Rightarrow> 's \<Rightarrow> string list io option \<times> 's"
  ask :: "challenge \<Rightarrow> 's \<Rightarrow> string list io option \<times> 's"
  check :: "verification_kind \<Rightarrow> string \<Rightarrow> 's \<Rightarrow> bool io option \<times> 's"
  inform :: "string \<Rightarrow> 's \<Rightarrow> unit io option \<times> 's"
  report :: "auth_error \<Rightarrow> 's \<Rightarrow> unit io option \<times> 's"
  start_method :: "string \<Rightarrow> 's \<Rightarrow> unit io option \<times> 's"
  finished :: "'s \<Rightarrow> unit io option \<times> 's"

section \<open>Methods and the verifier\<close>

datatype 'k auth_method = NoneMethod | StaticKeyMethod 'k

fun method_id :: "'k auth_method \<Rightarrow> string" where
  "method_id NoneMethod = ''none''"
| "method_id (StaticKeyMethod k) = ''static_key''"

definition key_challenge :: challenge where
  "key_challenge =
     \<lparr>questions = [\<lparr>question_label = ''key'', question_text = ''Provide a key: '', question_options = Map.empty\<rparr>],
      challenge_options = Map.empty\<rparr>"

definition check_key_answer :: "(string \<Rightarrow> 'k option) \<Rightarrow> 'k \<Rightarrow> string list \<Rightarrow> unit io" where
  "check_key_answer parse k answers =
     (case answers of
        [] \<Rightarrow> Err (into_io_permission_denied (error_non_fatal ''missing answer''))
      | a # _ \<Rightarrow>
          if parse a = Some k then Ok ()
          else Err (into_io_permission_denied (error_non_fatal ''answer does not match key'')))"

fun method_authenticate ::
  "(string \<Rightarrow> 'k option) \<Rightarrow> 's authenticator \<Rightarrow> 'k auth_method \<Rightarrow> 's \<Rightarrow> unit io option \<times> 's" where
  "method_authenticate parse A NoneMethod s = (Some (Ok ()), s)"
| "method_authenticate parse A (StaticKeyMethod k) s =
     then_wait (ask A key_challenge s) (\<lambda>answers s1. (Some (check_key_answer parse k answers), s1))"

type_synonym 'k verifier = "string \<rightharpoonup> 'k auth_method"

definition verifier_new :: "'k auth_method list \<Rightarrow> 'k verifier" where
  "verifier_new ms = foldl (\<lambda>m x. m(method_id x \<mapsto> x)) Map.empty ms"

definition verifier_none :: "'k verifier" where
  "verifier_none = verifier_new [NoneMethod]"

definition verifier_static_key :: "'k \<Rightarrow> 'k verifier" where
  "verifier_static_key k = verifier_new [StaticKeyMethod k]"

text \<open>The loop over the methods the client answered with.\<close>

fun verify_methods ::
  "(string \<Rightarrow> 'k option) \<Rightarrow> 's authenticator \<Rightarrow> 'k verifier \<Rightarrow> string list \<Rightarrow> 's \<Rightarrow> string io option \<times> 's" where
  "verify_methods parse A V [] s = (Some (Err PermissionDenied), s)"
| "verify_methods parse A V (x # xs) s =
     (case V x of
        None \<Rightarrow> verify_methods parse A V xs s
      | Some m \<Rightarrow>
          then_wait (start_method A (method_id m) s) (\<lambda>_ s1.
            case method_authenticate parse A m s1 of
              (None, s2) \<Rightarrow> (None, s2)
            | (Some (Inr _), s2) \<Rightarrow>
                then_wait (finished A s2) (\<lambda>_ s3. (Some (Ok (method_id m)), s3))
            | (Some (Inl Panic), s2) \<Rightarrow> (Some panic, s2)
            | (Some (Inl (IoError _)), s2) \<Rightarrow> verify_methods parse A V xs s2))"

text \<open>\<open>ids\<close> is the order in which the table of methods is visited.\<close>

definition verifier_verify ::
  "(string \<Rightarrow> 'k option) \<Rightarrow> 's authenticator \<Rightarrow> 'k verifier \<Rightarrow> string list \<Rightarrow> 's \<Rightarrow> string io option \<times> 's" where
  "verifier_verify parse A V ids s =
     then_wait (initialize A ids s) (\<lambda>methods s1. verify_methods parse A V methods s1)"

section \<open>Handlers of the client\<close>

record 'h auth_handler =
  on_initialization :: "string list \<Rightarrow> 'h \<Rightarrow> string list io \<times> 'h"
  on_start_method :: "string \<Rightarrow> 'h \<Rightarrow> unit io \<times> 'h"
  on_finished :: "'h \<Rightarrow> unit io \<times> 'h"
  on_challenge :: "challenge \<Rightarrow> 'h \<Rightarrow> string list io \<times> 'h"
  on_verification :: "verification_kind \<Rightarrow> string \<Rightarrow> 'h \<Rightarrow> bool io \<times> 'h"
  on_info :: "string \<Rightarrow> 'h \<Rightarrow> unit io \<times> 'h"
  on_error :: "auth_error \<Rightarrow> 'h \<Rightarrow> unit io \<times> 'h"

text \<open>
  The method handlers: a static key (its displayed text) over another handler, the handler that
  approves everything, and prompts (functions from the prompt to the user's input).
\<close>

datatype method_handler =
    StaticKeyHandler string method_handler
  | ApproveAll
  | PromptHandler "string \<Rightarrow> string io" "string \<Rightarrow> string io"








record handler_map =
  active :: string
  handlers :: "string \<rightharpoonup> method_handler"




definition remove_method_handler :: "string \<Rightarrow> handler_map \<Rightarrow> handler_map" where
  "remove_method_handler i m = m\<lparr>handlers := (handlers m)(i := None)\<rparr>"




text \<open>The handler that refuses everything and the one that uses a method handler for all methods.\<close>

definition dummy_handler :: "unit auth_handler" where
  "dummy_handler = \<lparr>
     on_initialization = (\<lambda>ms h. (Ok ms, h)), on_start_method = (\<lambda>x h. (Ok (), h)), on_finished = (\<lambda>h. (Ok (), h)),
     on_challenge = (\<lambda>c h. (Err Unsupported, h)), on_verification = (\<lambda>v t h. (Err Unsupported, h)),
     on_info = (\<lambda>t h. (Err Unsupported, h)), on_error = (\<lambda>e h. (Err Unsupported, h))\<rparr>"


section \<open>Both ends over a link\<close>

record ('i, 'o) link =
  inbox :: "'i option io list"
  write_results :: "unit io list"
  outbox :: "'o list"

definition link_write :: "'o \<Rightarrow> ('i, 'o) link \<Rightarrow> unit io option \<times> ('i, 'o) link" where
  "link_write x l =
     (case write_results l of
        [] \<Rightarrow> (None, l)
      | Inl e # rs \<Rightarrow> (Some (Inl e), l\<lparr>write_results := rs\<rparr>)
      | Inr _ # rs \<Rightarrow> (Some (Ok ()), l\<lparr>write_results := rs, outbox := outbox l @ [x]\<rparr>))"

definition link_read :: "('i, 'o) link \<Rightarrow> 'i option io option \<times> ('i, 'o) link" where
  "link_read l = (case inbox l of [] \<Rightarrow> (None, l) | r # rs \<Rightarrow> (Some r, l\<lparr>inbox := rs\<rparr>))"

text \<open>\<open>next_frame_as\<close>: the end of the link is an error, and so is a message of another kind.\<close>

definition next_frame_as :: "('i \<Rightarrow> 'a option) \<Rightarrow> ('i, 'o) link \<Rightarrow> 'a io option \<times> ('i, 'o) link" where
  "next_frame_as pick l =
     then_wait (link_read l) (\<lambda>r l1.
       case r of
         None \<Rightarrow> (Some (Err UnexpectedEof), l1)
       | Some m \<Rightarrow> (case pick m of None \<Rightarrow> (Some (Err InvalidData), l1) | Some x \<Rightarrow> (Some (Ok x), l1)))"

type_synonym server_link = "(authentication_response, authentication) link"

definition link_authenticator :: "server_link authenticator" where
  "link_authenticator = \<lparr>
     initialize = (\<lambda>ms l. then_wait (link_write (Initialization ms) l)
       (\<lambda>_. next_frame_as (\<lambda>m. case m of InitializationResponse x \<Rightarrow> Some x | _ \<Rightarrow> None))),
     ask = (\<lambda>c l. then_wait (link_write (Challenge c) l)
       (\<lambda>_. next_frame_as (\<lambda>m. case m of ChallengeResponse x \<Rightarrow> Some x | _ \<Rightarrow> None))),
     check = (\<lambda>k t l. then_wait (link_write (Verification k t) l)
       (\<lambda>_. next_frame_as (\<lambda>m. case m of VerificationResponse x \<Rightarrow> Some x | _ \<Rightarrow> None))),
     inform = (\<lambda>t l. link_write (Info t) l),
     report = (\<lambda>e l. link_write (AuthError e) l),
     start_method = (\<lambda>x l. link_write (StartMethod x) l),
     finished = (\<lambda>l. link_write Finished l)\<rparr>"




lemma inbox_link_write [simp]: "link_write x l = (r, l') \<Longrightarrow> inbox l' = inbox l"
  by (auto simp: link_write_def split: list.splits sum.splits)







section \<open>What a verifier demands\<close>

lemma verifier_singles:
  "verifier_none = [''none'' \<mapsto> NoneMethod]"
  "verifier_static_key k = [''static_key'' \<mapsto> StaticKeyMethod k]"
  by (simp_all add: verifier_none_def verifier_static_key_def verifier_new_def)

lemma verify_methods_OkD:
  assumes "verify_methods parse A V xs s = (Some (Ok x), s')"
  shows "\<exists>y m s1 s2. y \<in> set xs \<and> V y = Some m \<and> x = method_id m
     \<and> method_authenticate parse A m s1 = (Some (Ok ()), s2)"
  using assms
proof (induction xs arbitrary: s)
  case (Cons y ys)
  show ?case
  proof (cases "V y")
    case None
    with Cons.prems have "verify_methods parse A V ys s = (Some (Ok x), s')" by simp
    from Cons.IH [OF this] obtain z m s1 s2 where "z \<in> set ys" "V z = Some m" "x = method_id m"
      "method_authenticate parse A m s1 = (Some (Ok ()), s2)" by blast
    then show ?thesis by (intro exI [of _ z] exI [of _ m] exI [of _ s1] exI [of _ s2]) simp
  next
    case (Some m)
    with Cons.prems obtain s1 where st: "start_method A (method_id m) s = (Some (Ok ()), s1)"
      and rest: "(case method_authenticate parse A m s1 of
              (None, s2) \<Rightarrow> (None, s2)
            | (Some (Inr _), s2) \<Rightarrow> then_wait (finished A s2) (\<lambda>_ s3. (Some (Ok (method_id m)), s3))
            | (Some (Inl Panic), s2) \<Rightarrow> (Some panic, s2)
            | (Some (Inl (IoError _)), s2) \<Rightarrow> verify_methods parse A V ys s2) = (Some (Ok x), s')"
      by (auto simp: then_wait_Ok_iff)
    obtain r s2 where r: "method_authenticate parse A m s1 = (r, s2)" by fastforce
    show ?thesis
    proof (cases "r = Some (Ok ())")
      case True
      with rest r have "x = method_id m" by (auto simp: then_wait_Ok_iff)
      with r True Some show ?thesis by auto
    next
      case False
      with rest r have "verify_methods parse A V ys s2 = (Some (Ok x), s')"
        by (auto split: option.splits sum.splits fault.splits)
      from Cons.IH [OF this] obtain z m s1 s2 where "z \<in> set ys" "V z = Some m" "x = method_id m"
      "method_authenticate parse A m s1 = (Some (Ok ()), s2)" by blast
    then show ?thesis by (intro exI [of _ z] exI [of _ m] exI [of _ s1] exI [of _ s2]) simp
    qed
  qed
qed simp

lemma method_authenticate_static_OkD:
  assumes "method_authenticate parse A (StaticKeyMethod k) s = (Some (Ok ()), s')"
  shows "\<exists>answers. ask A key_challenge s = (Some (Ok answers), s') \<and> answers \<noteq> [] \<and> parse (hd answers) = Some k"
proof -
  from assms obtain answers where "ask A key_challenge s = (Some (Ok answers), s')"
    and "check_key_answer parse k answers = Ok ()" by (auto simp: then_wait_Ok_iff)
  then show ?thesis by (cases answers) (auto simp: check_key_answer_def split: if_splits)
qed

section \<open>Properties\<close>

text \<open>
  C25: a verifier that accepts only static keys lets nobody in who did not give the key. Whatever
  the authenticator does, success means that a key challenge was put and its first answer parsed
  to the key of a registered method.
\<close>

theorem no_success_without_key:
  assumes "verifier_verify parse A V ids s = (Some (Ok x), s')" and "NoneMethod \<notin> ran V"
  shows "\<exists>k s1 s2 answers. StaticKeyMethod k \<in> ran V \<and> x = ''static_key''
     \<and> ask A key_challenge s1 = (Some (Ok answers), s2) \<and> answers \<noteq> [] \<and> parse (hd answers) = Some k"
proof -
  from assms(1) obtain xs s0 where "verify_methods parse A V xs s0 = (Some (Ok x), s')"
    by (auto simp: verifier_verify_def then_wait_Ok_iff)
  from verify_methods_OkD [OF this] obtain y m s1 s2 where V: "V y = Some m" "x = method_id m"
    and m: "method_authenticate parse A m s1 = (Some (Ok ()), s2)" by blast
  from V(1) assms(2) obtain k where k: "m = StaticKeyMethod k" by (cases m) (auto simp: ran_def)
  with V have "StaticKeyMethod k \<in> ran V" by (auto simp: ran_def)
  with method_authenticate_static_OkD [OF m [unfolded k]] V(2) k show ?thesis by auto
qed

definition example_replies :: server_link where
  "example_replies = \<lparr>inbox = [Ok (Some (InitializationResponse [''none'', ''static_key''])),
     Ok (Some (ChallengeResponse [''sesame'']))], write_results = replicate 4 (Ok ()), outbox = []\<rparr>"

lemma replicate_4: "replicate 4 x = [x, x, x, x]"
  by (simp add: numeral_eq_Suc)

theorem no_success_without_key_witness:
  "\<exists>s s1 s2 answers. verifier_verify Some link_authenticator (verifier_static_key ''sesame'') [''static_key''] example_replies
       = (Some (Ok ''static_key''), s)
     \<and> ask link_authenticator key_challenge s1 = (Some (Ok answers), s2) \<and> hd answers = ''sesame''"
proof -
  obtain s where v: "verifier_verify Some link_authenticator (verifier_static_key ''sesame'') [''static_key''] example_replies
       = (Some (Ok ''static_key''), s)"
    by (simp add: verifier_verify_def link_authenticator_def example_replies_def replicate_4 link_write_def
        next_frame_as_def link_read_def verifier_singles check_key_answer_def)
  have "NoneMethod \<notin> ran (verifier_static_key ''sesame'')" by (simp add: verifier_singles)
  from no_success_without_key [OF v this] v show ?thesis by (auto simp: verifier_singles)
qed




end
