(* ===== verification/Keychain.thy ===== *)
theory Keychain
  imports Prelude
begin

text \<open>
  The keychain of reconnect passwords (\<open>distant-core/src/net/common/keychain.rs\<close>): a map from ids
  to a key and data. Each operation holds the lock for its whole body, so a history of concurrent
  calls is a sequence of these operations. Keys are compared for equality.
\<close>

datatype 'a keychain_result = InvalidId | InvalidPassword | Found 'a

definition is_invalid_id :: "'a keychain_result \<Rightarrow> bool" where
  "is_invalid_id r \<longleftrightarrow> (case r of InvalidId \<Rightarrow> True | _ \<Rightarrow> False)"

definition is_invalid_password :: "'a keychain_result \<Rightarrow> bool" where
  "is_invalid_password r \<longleftrightarrow> (case r of InvalidPassword \<Rightarrow> True | _ \<Rightarrow> False)"

definition is_invalid :: "'a keychain_result \<Rightarrow> bool" where
  "is_invalid r \<longleftrightarrow> (case r of Found _ \<Rightarrow> False | _ \<Rightarrow> True)"

definition is_found :: "'a keychain_result \<Rightarrow> bool" where
  "is_found r \<longleftrightarrow> (case r of Found _ \<Rightarrow> True | _ \<Rightarrow> False)"

definition into_found :: "'a keychain_result \<Rightarrow> 'a option" where
  "into_found r = (case r of Found x \<Rightarrow> Some x | _ \<Rightarrow> None)"

type_synonym ('k, 'a) keychain = "string \<rightharpoonup> 'k \<times> 'a"

definition keychain_new :: "('k, 'a) keychain" where
  "keychain_new = Map.empty"

definition keychain_insert :: "string \<Rightarrow> 'k \<Rightarrow> 'a \<Rightarrow> ('k, 'a) keychain \<Rightarrow> 'a option \<times> ('k, 'a) keychain" where
  "keychain_insert i k x m = (map_option snd (m i), m(i \<mapsto> (k, x)))"

definition has_id :: "string \<Rightarrow> ('k, 'a) keychain \<Rightarrow> bool" where
  "has_id i m \<longleftrightarrow> m i \<noteq> None"

definition has_key :: "string \<Rightarrow> 'k \<Rightarrow> ('k, 'a) keychain \<Rightarrow> bool" where
  "has_key i k m \<longleftrightarrow> (case m i of Some (k', _) \<Rightarrow> k = k' | None \<Rightarrow> False)"

definition keychain_remove :: "string \<Rightarrow> ('k, 'a) keychain \<Rightarrow> 'a option \<times> ('k, 'a) keychain" where
  "keychain_remove i m = (map_option snd (m i), m(i := None))"

definition remove_if_has_key ::
  "string \<Rightarrow> 'k \<Rightarrow> ('k, 'a) keychain \<Rightarrow> 'a keychain_result \<times> ('k, 'a) keychain" where
  "remove_if_has_key i k m =
     (case m i of
        Some (k', x) \<Rightarrow> if k = k' then (Found x, m(i := None)) else (InvalidPassword, m)
      | None \<Rightarrow> (InvalidId, m))"

definition keychain_put :: "string \<Rightarrow> 'k \<Rightarrow> ('k, unit) keychain \<Rightarrow> ('k, unit) keychain" where
  "keychain_put i k m = snd (keychain_insert i k () m)"

definition keychain_from_keys :: "(string \<rightharpoonup> 'k) \<Rightarrow> ('k, unit) keychain" where
  "keychain_from_keys m = (\<lambda>i. map_option (\<lambda>k. (k, ())) (m i))"

section \<open>The contract of a one-time password store\<close>

text \<open>
  What the server connection relies on: an entry is found under the key it was stored with, once,
  and nothing else is disturbed.
\<close>

locale one_time_store =
  fixes lookup :: "string \<Rightarrow> 'm \<Rightarrow> ('k \<times> 'a) option"
    and store :: "string \<Rightarrow> 'k \<Rightarrow> 'a \<Rightarrow> 'm \<Rightarrow> 'm"
    and redeem :: "string \<Rightarrow> 'k \<Rightarrow> 'm \<Rightarrow> 'a keychain_result \<times> 'm"
  assumes lookup_store: "lookup j (store i k x m) = (if j = i then Some (k, x) else lookup j m)"
    and redeem_none: "lookup i m = None \<Longrightarrow> redeem i k m = (InvalidId, m)"
    and redeem_wrong: "lookup i m = Some (k', x) \<Longrightarrow> k \<noteq> k' \<Longrightarrow> redeem i k m = (InvalidPassword, m)"
    and redeem_right: "lookup i m = Some (k, x) \<Longrightarrow> redeem i k m = (Found x, m') \<Longrightarrow>
          lookup j m' = (if j = i then None else lookup j m)"
    and redeem_found: "lookup i m = Some (k, x) \<Longrightarrow> fst (redeem i k m) = Found x"
begin

lemma redeem_stored: "fst (redeem i k (store i k x m)) = Found x"
  by (rule redeem_found) (simp add: lookup_store)

lemma redeem_rotated: "k \<noteq> k' \<Longrightarrow> redeem i k (store i k' x m) = (InvalidPassword, store i k' x m)"
  by (rule redeem_wrong) (simp_all add: lookup_store)

lemma redeem_cases:
  assumes "redeem i k m = (r, m')"
  shows "(\<exists>x. r = Found x \<and> lookup i m = Some (k, x)) \<or> \<not> is_found r \<and> m' = m"
proof (cases "lookup i m")
  case None
  with redeem_none [OF this, of k] assms show ?thesis by (simp add: is_found_def)
next
  case (Some y)
  obtain k' x where y: "y = (k', x)" by (cases y)
  show ?thesis
  proof (cases "k = k'")
    case True
    with Some y redeem_found [of i m k x] assms show ?thesis by simp
  next
    case False
    with Some y redeem_wrong [of i m k' x k] assms show ?thesis by (simp add: is_found_def)
  qed
qed

lemma redeem_once:
  assumes "redeem i k m = (Found x, m')"
  shows "redeem i k' m' = (InvalidId, m')"
proof -
  from redeem_cases [OF assms] have "lookup i m = Some (k, x)" by (auto simp: is_found_def)
  from redeem_right [OF this assms, of i] show ?thesis by (intro redeem_none) simp
qed

lemma redeem_other: "redeem i k m = (r, m') \<Longrightarrow> j \<noteq> i \<Longrightarrow> lookup j m' = lookup j m"
  using redeem_cases [of i k m r m'] redeem_right [of i m k _ m' j] by fastforce

end

interpretation passwords: one_time_store "\<lambda>i m. m i" "\<lambda>i k x m. snd (keychain_insert i k x m)" remove_if_has_key
  by unfold_locales (auto simp: keychain_insert_def remove_if_has_key_def)

section \<open>Histories\<close>

datatype ('k, 'a) keychain_op =
    Insert string 'k 'a
  | Remove string
  | Redeem string 'k

definition keychain_step :: "('k, 'a) keychain_op \<Rightarrow> ('k, 'a) keychain \<Rightarrow> 'a option \<times> ('k, 'a) keychain" where
  "keychain_step x m =
     (case x of
        Insert i k d \<Rightarrow> (None, snd (keychain_insert i k d m))
      | Remove i \<Rightarrow> (None, snd (keychain_remove i m))
      | Redeem i k \<Rightarrow> (case remove_if_has_key i k m of (r, m') \<Rightarrow> (into_found r, m')))"

fun keychain_run :: "('k, 'a) keychain_op list \<Rightarrow> ('k, 'a) keychain \<Rightarrow> 'a option list \<times> ('k, 'a) keychain" where
  "keychain_run [] m = ([], m)"
| "keychain_run (x # xs) m =
     (case keychain_step x m of (r, m1) \<Rightarrow> (case keychain_run xs m1 of (rs, m2) \<Rightarrow> (r # rs, m2)))"

text \<open>How often a password was issued for an id, and how often it was redeemed.\<close>

definition issued :: "string \<Rightarrow> 'k \<Rightarrow> ('k, 'a) keychain_op list \<Rightarrow> nat" where
  "issued i k xs = length (filter (\<lambda>x. case x of Insert j k' _ \<Rightarrow> j = i \<and> k' = k | _ \<Rightarrow> False) xs)"

definition redeemed :: "string \<Rightarrow> 'k \<Rightarrow> ('k, 'a) keychain_op list \<Rightarrow> 'a option list \<Rightarrow> nat" where
  "redeemed i k xs rs = length (filter (\<lambda>(x, r). x = Redeem i k \<and> r \<noteq> None) (zip xs rs))"

lemma redeemed_le_issued:
  "keychain_run xs m = (rs, m') \<Longrightarrow>
     redeemed i k xs rs + (if has_key i k m' then 1 else 0) \<le> issued i k xs + (if has_key i k m then 1 else 0)"
proof (induction xs arbitrary: m rs)
  case Nil
  then show ?case by (simp add: redeemed_def issued_def)
next
  case (Cons x xs)
  obtain r m1 where st: "keychain_step x m = (r, m1)" by fastforce
  obtain rs1 where rest: "keychain_run xs m1 = (rs1, m')" and rs: "rs = r # rs1"
    using Cons.prems st by (auto split: prod.splits)
  have "redeemed i k (x # xs) rs = (if x = Redeem i k \<and> r \<noteq> None then 1 else 0) + redeemed i k xs rs1"
    by (simp add: redeemed_def rs)
  moreover have "issued i k (x # xs) = (case x of Insert j k' _ \<Rightarrow> if j = i \<and> k' = k then 1 else 0 | _ \<Rightarrow> 0) + issued i k xs"
    by (simp add: issued_def split: keychain_op.split)
  moreover have "(if x = Redeem i k \<and> r \<noteq> None then 1 else 0) + (if has_key i k m1 then 1 else 0)
      \<le> (case x of Insert j k' _ \<Rightarrow> if j = i \<and> k' = k then 1 else 0 | _ \<Rightarrow> 0) + (if has_key i k m then 1 else (0::nat))"
    using st by (cases x)
      (auto simp: keychain_step_def keychain_insert_def keychain_remove_def remove_if_has_key_def has_key_def
        into_found_def split: option.splits if_splits)
  ultimately show ?case using Cons.IH [OF rest] by linarith
qed

section \<open>Properties\<close>

text \<open>
  C31: a one-time password is good once. In every history of insertions, removals and attempts by
  any number of connections on a new keychain, a key is redeemed for an id at most as often as it
  was issued for it.
\<close>

theorem one_time_passwords:
  "redeemed i k xs (fst (keychain_run xs keychain_new)) \<le> issued i k xs"
proof -
  obtain rs m' where run: "keychain_run xs keychain_new = (rs, m')" by fastforce
  have "\<not> has_key i k (keychain_new :: ('a, 'b) keychain)" by (simp add: has_key_def keychain_new_def)
  with redeemed_le_issued [OF run, of i k] run show ?thesis by simp
qed

end
