(* ===== verification/Version.thy ===== *)
theory Version
  imports Prelude
begin

text \<open>
  Protocol versions (\<open>distant-core/src/net/common/version.rs\<close>). The crate \<open>semver\<close> is a parameter:
  the function that matches a comparator against a version. \<open>matches_release\<close> states what its
  documentation says of the two operators used, on versions without a pre-release part. The
  counters are 64-bit words; their increments wrap, as they do in a release build.
\<close>

record semver =
  major :: u64
  minor :: u64
  patch :: u64
  pre :: string
  build :: string

datatype op = GreaterEq | Less

record comparator =
  c_op :: op
  c_major :: u64
  c_minor :: "u64 option"
  c_patch :: "u64 option"
  c_pre :: string

record version =
  ver :: semver
  lower :: comparator
  upper :: comparator

definition semver_new :: "u64 \<Rightarrow> u64 \<Rightarrow> u64 \<Rightarrow> semver" where
  "semver_new a b c = \<lparr>major = a, minor = b, patch = c, pre = [], build = []\<rparr>"

definition version_new :: "u64 \<Rightarrow> u64 \<Rightarrow> u64 \<Rightarrow> version" where
  "version_new a b c =
     \<lparr>ver = semver_new a b c,
      lower = \<lparr>c_op = GreaterEq, c_major = a, c_minor = Some b, c_patch = Some c, c_pre = []\<rparr>,
      upper = \<lparr>c_op = Less, c_major = (if a = 0 then 0 else a + 1),
               c_minor = (if a = 0 then Some (b + 1) else None), c_patch = None, c_pre = []\<rparr>\<rparr>"

definition is_compatible_with :: "(comparator \<Rightarrow> semver \<Rightarrow> bool) \<Rightarrow> version \<Rightarrow> version \<Rightarrow> bool" where
  "is_compatible_with m this other \<longleftrightarrow> m (lower this) (ver other) \<and> m (upper this) (ver other)"

definition version_from_be_bytes :: "bytes \<Rightarrow> version" where
  "version_from_be_bytes bs =
     version_new (u64_from_be_bytes (take 8 bs)) (u64_from_be_bytes (take 8 (drop 8 bs)))
       (u64_from_be_bytes (take 8 (drop 16 bs)))"

definition version_to_be_bytes :: "version \<Rightarrow> bytes" where
  "version_to_be_bytes v =
     u64_to_be_bytes (major (ver v)) @ u64_to_be_bytes (minor (ver v)) @ u64_to_be_bytes (patch (ver v))"

definition version_default :: version where
  "version_default = version_new 0 0 0"

definition version_from_semver :: "semver \<Rightarrow> version" where
  "version_from_semver s = (version_new (major s) (minor s) (patch s))\<lparr>ver := s\<rparr>"

definition version_into_semver :: "version \<Rightarrow> semver" where
  "version_into_semver v = ver v"

section \<open>Release versions\<close>

definition release_le :: "u64 \<Rightarrow> u64 \<Rightarrow> u64 \<Rightarrow> semver \<Rightarrow> bool" where
  "release_le a b c v \<longleftrightarrow>
     a < major v \<or> a = major v \<and> (b < minor v \<or> b = minor v \<and> c \<le> patch v)"

text \<open>
  The documented meaning of \<open>>=I.J.K\<close>, \<open><I.J\<close> (the same as \<open><I.J.0\<close>) and \<open><I\<close> (the same as
  \<open><I.0.0\<close>) for versions without a pre-release part.
\<close>

definition matches_release :: "(comparator \<Rightarrow> semver \<Rightarrow> bool) \<Rightarrow> bool" where
  "matches_release m \<longleftrightarrow>
     (\<forall>a b c v. pre v = [] \<longrightarrow>
        (m \<lparr>c_op = GreaterEq, c_major = a, c_minor = Some b, c_patch = Some c, c_pre = []\<rparr> v \<longleftrightarrow> release_le a b c v)
      \<and> (m \<lparr>c_op = Less, c_major = a, c_minor = Some b, c_patch = None, c_pre = []\<rparr> v \<longleftrightarrow> \<not> release_le a b 0 v)
      \<and> (m \<lparr>c_op = Less, c_major = a, c_minor = None, c_patch = None, c_pre = []\<rparr> v \<longleftrightarrow> \<not> release_le a 0 0 v))"

definition example_matches :: "comparator \<Rightarrow> semver \<Rightarrow> bool" where
  "example_matches c v =
     (let le = release_le (c_major c) (case c_minor c of Some b \<Rightarrow> b | None \<Rightarrow> 0)
                 (case c_patch c of Some p \<Rightarrow> p | None \<Rightarrow> 0) v
      in if c_op c = GreaterEq then le else \<not> le)"

lemma example_matches_release: "matches_release example_matches"
  by (simp add: matches_release_def example_matches_def)

lemma less_Suc_word: "(a :: u64) \<noteq> - 1 \<Longrightarrow> b < a + 1 \<longleftrightarrow> b \<le> a"
proof -
  assume "a \<noteq> - 1"
  then have "1 + a \<noteq> 0" by (metis add.commute add_eq_0_iff2)
  then have "unat (a + 1) = Suc (unat a)" by (simp add: unatSuc add.commute [of a])
  then show ?thesis by (simp add: word_less_nat_alt word_le_nat_alt less_Suc_eq_le)
qed

lemma version_bytes_roundtrip:
  "pre (ver v) = [] \<Longrightarrow> length (version_to_be_bytes v) = 24
   \<and> version_from_be_bytes (version_to_be_bytes v) = version_new (major (ver v)) (minor (ver v)) (patch (ver v))"
  by (simp add: version_from_be_bytes_def version_to_be_bytes_def be_simps)

section \<open>Properties\<close>

text \<open>
  C21: a release version accepts exactly the release versions that are not older and agree in the
  leading non-zero position of major and minor number, as long as the number that is incremented
  for the upper bound is not the greatest 64-bit integer; the greatest one is incompatible with
  every version, itself included.
\<close>

theorem compatible_release_iff:
  assumes "matches_release m" and "pre (ver w) = []"
  shows "is_compatible_with m (version_new a b c) w \<longleftrightarrow>
     release_le a b c (ver w)
     \<and> (if a = 0 then major (ver w) = 0 \<and> minor (ver w) \<le> b \<and> b \<noteq> - 1
        else major (ver w) \<le> a \<and> a \<noteq> - 1)"
proof -
  have lo: "m (lower (version_new a b c)) (ver w) \<longleftrightarrow> release_le a b c (ver w)"
    and up: "m (upper (version_new a b c)) (ver w) \<longleftrightarrow>
      \<not> release_le (if a = 0 then 0 else a + 1) (if a = 0 then b + 1 else 0) 0 (ver w)"
    using assms by (auto simp: matches_release_def version_new_def)
  have zero: "release_le 0 0 0 v" for v
    by (auto simp: release_le_def word_gt_0)
  show ?thesis
  proof (cases "a = 0")
    case True
    have "\<not> release_le 0 (b + 1) 0 (ver w) \<longleftrightarrow> major (ver w) = 0 \<and> minor (ver w) < b + 1"
      by (auto simp: release_le_def word_gt_0)
    with True lo up less_Suc_word [of b] show ?thesis by (auto simp: is_compatible_with_def)
  next
    case False
    have "\<not> release_le (a + 1) 0 0 (ver w) \<longleftrightarrow> major (ver w) < a + 1"
      by (auto simp: release_le_def word_gt_0)
    with False lo up less_Suc_word [of a] show ?thesis by (auto simp: is_compatible_with_def)
  qed
qed

theorem compatible_release_iff_witness:
  "is_compatible_with example_matches (version_new 1 2 3) (version_new 1 3 0)
   \<and> \<not> is_compatible_with example_matches (version_new 0 1 2) (version_new 0 2 0)
   \<and> \<not> is_compatible_with example_matches (version_new (- 1) 0 0) (version_new (- 1) 0 0)"
  using compatible_release_iff [OF example_matches_release, of "version_new 1 3 0" 1 2 3]
    compatible_release_iff [OF example_matches_release, of "version_new 0 2 0" 0 1 2]
    compatible_release_iff [OF example_matches_release, of "version_new (- 1) 0 0" "- 1" 0 0]
  by (simp add: version_new_def semver_new_def release_le_def word_le_nat_alt)

end
