(* ===== verification/Connection.thy ===== *)
theory Connection
  imports Handshake Keychain Version Text
begin

text \<open>
  Establishing and re-establishing connections (\<open>distant-core/src/net/common/connection.rs\<close>). The
  steps a connection takes over its transport (sending the version, the handshake, one message,
  authentication, the exchange of keys, the synchronisation) are the operations of a record over
  an abstract transport, so that the protocol can be followed for every outcome of each of them.
  Backups travel from a dropped connection to its successor through one-shot channels, here
  numbered slots.
\<close>

type_synonym connection_id = "32 word"
type_synonym otp = bytes

datatype connect_type = Connect | Reconnect connection_id otp

record 't conn_ops =
  op_send_version :: "'t \<Rightarrow> unit io option \<times> 't"
  op_read_version :: "'t \<Rightarrow> bytes io option \<times> 't"
  op_raw_reconnect :: "'t \<Rightarrow> unit io option \<times> 't"
  op_handshake :: "'t \<Rightarrow> unit io option \<times> 't"
  op_write_type :: "connect_type \<Rightarrow> 't \<Rightarrow> unit io option \<times> 't"
  op_read_type :: "'t \<Rightarrow> connect_type option io option \<times> 't"
  op_write_id :: "connection_id \<Rightarrow> 't \<Rightarrow> unit io option \<times> 't"
  op_read_id :: "'t \<Rightarrow> connection_id option io option \<times> 't"
  op_authenticate :: "'t \<Rightarrow> unit io option \<times> 't"
  op_verify :: "'t \<Rightarrow> unit io option \<times> 't"
  op_exchange_keys :: "'t \<Rightarrow> otp io option \<times> 't"
  op_synchronize :: "'t \<Rightarrow> unit io option \<times> 't"
  backup_of :: "'t \<Rightarrow> backup"
  set_backup :: "backup \<Rightarrow> 't \<Rightarrow> 't"

section \<open>One-shot channels and the state of the server\<close>

datatype slot = Pending | Stored backup | Closed

record server_world =
  keychain :: "(otp, nat) keychain"
  slots :: "nat \<Rightarrow> slot"
  fresh :: nat

definition oneshot :: "server_world \<Rightarrow> nat \<times> server_world" where
  "oneshot w = (fresh w, w\<lparr>slots := (slots w)(fresh w := Pending), fresh := Suc (fresh w)\<rparr>)"

definition slot_send :: "nat \<Rightarrow> backup \<Rightarrow> server_world \<Rightarrow> server_world" where
  "slot_send i b w = w\<lparr>slots := (slots w)(i := Stored b)\<rparr>"

definition slot_drop :: "nat \<Rightarrow> server_world \<Rightarrow> server_world" where
  "slot_drop i w = (case slots w i of Pending \<Rightarrow> w\<lparr>slots := (slots w)(i := Closed)\<rparr> | _ \<Rightarrow> w)"

text \<open>Awaiting the receiver: nothing yet, the backup, or a fresh one when the sender is gone.\<close>

definition await_backup :: "nat \<Rightarrow> server_world \<Rightarrow> backup option" where
  "await_backup i w =
     (case slots w i of Pending \<Rightarrow> None | Stored b \<Rightarrow> Some b | Closed \<Rightarrow> Some backup_new)"

definition store_password :: "connection_id \<Rightarrow> otp \<Rightarrow> nat \<Rightarrow> server_world \<Rightarrow> server_world" where
  "store_password i k rx w = w\<lparr>keychain := snd (keychain_insert (show_word i) k rx (keychain w))\<rparr>"

datatype 't connection =
    ClientConnection (conn_id: connection_id) (reauth_otp: otp) (transport: 't)
  | ServerConnection (conn_id: connection_id) (backup_tx: nat) (transport: 't)

text \<open>\<open>Drop\<close>: a server connection hands its backup over.\<close>

definition connection_drop :: "'t conn_ops \<Rightarrow> 't connection \<Rightarrow> server_world \<Rightarrow> server_world" where
  "connection_drop Ops c w =
     (case c of
        ClientConnection _ _ _ \<Rightarrow> w
      | ServerConnection _ tx t \<Rightarrow> slot_send tx (backup_of Ops t) w)"

section \<open>The server\<close>

text \<open>
  \<open>then_serve\<close> is \<open>?\<close> for a server step: an error ends the attempt and drops the sender made for it,
  if any.
\<close>

definition then_serve ::
  "nat option \<Rightarrow> 'a io option \<times> 't \<Rightarrow> server_world \<Rightarrow>
     ('a \<Rightarrow> 't \<Rightarrow> 'b io option \<times> 't \<times> server_world) \<Rightarrow> 'b io option \<times> 't \<times> server_world" where
  "then_serve tx p w k =
     (case p of
        (None, t) \<Rightarrow> (None, t, w)
      | (Some (Inl e), t) \<Rightarrow> (Some (Inl e), t, (case tx of Some i \<Rightarrow> slot_drop i w | None \<Rightarrow> w))
      | (Some (Inr x), t) \<Rightarrow> k x t)"

text \<open>\<open>unwrap_or_fail!\<close>: the old password stays valid and leads to the given backup.\<close>

definition restore_session ::
  "connection_id \<Rightarrow> otp \<Rightarrow> nat \<Rightarrow> backup \<Rightarrow> server_world \<Rightarrow> server_world" where
  "restore_session i k tx b w = store_password i k tx (slot_send tx b w)"

definition serve_connect ::
  "'t conn_ops \<Rightarrow> connection_id \<Rightarrow> nat \<Rightarrow> 't \<Rightarrow> server_world \<Rightarrow> connection_id io option \<times> 't \<times> server_world" where
  "serve_connect Ops i tx t w =
     then_serve (Some tx) (op_write_id Ops i t) w (\<lambda>_ t1.
     then_serve (Some tx) (op_verify Ops t1) w (\<lambda>_ t2.
     then_serve (Some tx) (op_exchange_keys Ops t2) w (\<lambda>k t3.
       (Some (Ok i), t3, store_password i k tx w))))"

definition serve_reconnect ::
  "'t conn_ops \<Rightarrow> connection_id \<Rightarrow> otp \<Rightarrow> nat \<Rightarrow> 't \<Rightarrow> server_world
     \<Rightarrow> connection_id io option \<times> 't \<times> server_world" where
  "serve_reconnect Ops i k tx t w =
     (case remove_if_has_key (show_word i) k (keychain w) of
        (InvalidPassword, _) \<Rightarrow> (Some (Err PermissionDenied), t, slot_drop tx w)
      | (InvalidId, _) \<Rightarrow> (Some (Err PermissionDenied), t, slot_drop tx w)
      | (Found rx, kc) \<Rightarrow>
          (let w1 = w\<lparr>keychain := kc\<rparr> in
           case await_backup rx w1 of
             None \<Rightarrow> (None, t, w1)
           | Some b \<Rightarrow>
               (case op_exchange_keys Ops t of
                  (None, t1) \<Rightarrow> (None, t1, w1)
                | (Some (Inl e), t1) \<Rightarrow>
                    (Some (Inl e), t1, if e = Panic then w1 else restore_session i k tx b w1)
                | (Some (Inr new_k), t1) \<Rightarrow>
                    (case op_synchronize Ops (set_backup Ops b t1) of
                       (None, t2) \<Rightarrow> (None, t2, w1)
                     | (Some (Inl e), t2) \<Rightarrow>
                         (Some (Inl e), t2, if e = Panic then w1 else restore_session i k tx (backup_of Ops t2) w1)
                     | (Some (Inr _), t2) \<Rightarrow> (Some (Ok i), t2, store_password i new_k tx w1)))))"

text \<open>\<open>Connection::server\<close> with the random id \<open>i\<close>.\<close>

definition server_connection ::
  "'t conn_ops \<Rightarrow> connection_id \<Rightarrow> 't \<Rightarrow> server_world \<Rightarrow> 't connection io option \<times> 't \<times> server_world" where
  "server_connection Ops i t w =
     then_serve None (op_send_version Ops t) w (\<lambda>_ t1.
     then_serve None (op_handshake Ops t1) w (\<lambda>_ t2.
     then_serve None (op_read_type Ops t2) w (\<lambda>r t3.
       case r of
         None \<Rightarrow> (Some (Err OtherKind), t3, w)
       | Some ty \<Rightarrow>
           (let (tx, w1) = oneshot w in
            case (case ty of
                    Connect \<Rightarrow> serve_connect Ops i tx t3 w1
                  | Reconnect other k \<Rightarrow> serve_reconnect Ops other k tx t3 w1) of
              (r, t4, w2) \<Rightarrow> (map_option (map_sum id (\<lambda>j. ServerConnection j tx t4)) r, t4, w2)))))"

section \<open>The client\<close>

text \<open>\<open>Connection::client\<close>; \<open>cmp\<close> is the comparator matching of \<open>semver\<close>.\<close>

definition client_connection ::
  "(comparator \<Rightarrow> semver \<Rightarrow> bool) \<Rightarrow> version \<Rightarrow> 't conn_ops \<Rightarrow> 't \<Rightarrow> 't connection io option \<times> 't" where
  "client_connection cmp v Ops t =
     then_wait (op_read_version Ops t) (\<lambda>bs t1.
       if length bs \<noteq> 24 then (Some (Err InvalidData), t1)
       else if \<not> is_compatible_with cmp v (version_from_be_bytes bs) then (Some (Err OtherKind), t1)
       else then_wait (op_handshake Ops t1) (\<lambda>_ t2.
            then_wait (op_write_type Ops Connect t2) (\<lambda>_ t3.
            then_wait (op_read_id Ops t3) (\<lambda>r t4.
              case r of
                None \<Rightarrow> (Some (Err OtherKind), t4)
              | Some i \<Rightarrow>
                  then_wait (op_authenticate Ops t4) (\<lambda>_ t5.
                  then_wait (op_exchange_keys Ops t5) (\<lambda>k t6.
                    (Some (Ok (ClientConnection i k t6)), t6)))))))"

definition reconnect_client ::
  "'t conn_ops \<Rightarrow> connection_id \<Rightarrow> otp \<Rightarrow> 't \<Rightarrow> (connection_id \<times> otp) io option \<times> 't" where
  "reconnect_client Ops i k t =
     then_wait (op_raw_reconnect Ops t) (\<lambda>_ t1.
     then_wait (op_read_version Ops t1) (\<lambda>bs t2.
       if length bs \<noteq> 24 then (Some (Err InvalidData), t2)
       else then_wait (op_handshake Ops t2) (\<lambda>_ t3.
            then_wait (op_write_type Ops (Reconnect i k) t3) (\<lambda>_ t4.
            then_wait (op_exchange_keys Ops t4) (\<lambda>new_k t5. (Some (Ok (i, new_k)), t5))))))"

text \<open>The backup is frozen while the client talks to the server, and then unfrozen in any case.\<close>

definition map_backup :: "'t conn_ops \<Rightarrow> (backup \<Rightarrow> backup) \<Rightarrow> 't \<Rightarrow> 't" where
  "map_backup Ops f t = set_backup Ops (f (backup_of Ops t)) t"

fun connection_reconnect :: "'t conn_ops \<Rightarrow> 't connection \<Rightarrow> unit io option \<times> 't connection" where
  "connection_reconnect Ops (ClientConnection i k t) =
     (case reconnect_client Ops i k (map_backup Ops freeze t) of
        (None, t1) \<Rightarrow> (None, ClientConnection i k t1)
      | (Some (Inl e), t1) \<Rightarrow>
          (Some (Inl e), ClientConnection i k (if e = Panic then t1 else map_backup Ops unfreeze t1))
      | (Some (Inr (new_i, new_k)), t1) \<Rightarrow>
          (case op_synchronize Ops (map_backup Ops unfreeze t1) of
             (None, t2) \<Rightarrow> (None, ClientConnection i k t2)
           | (Some (Inl e), t2) \<Rightarrow> (Some (Inl e), ClientConnection i k t2)
           | (Some (Inr _), t2) \<Rightarrow> (Some (Ok ()), ClientConnection new_i new_k t2)))"
| "connection_reconnect Ops (ServerConnection i tx t) = (Some (Err Unsupported), ServerConnection i tx t)"

section \<open>Steps of the server\<close>

definition world_wf :: "server_world \<Rightarrow> bool" where
  "world_wf w \<longleftrightarrow> (\<forall>i k rx. keychain w i = Some (k, rx) \<longrightarrow> rx < fresh w)"

lemma then_serve_simps [simp]:
  "then_serve tx (None, t) w f = (None, t, w)"
  "then_serve tx (Some (Inl e), t) w f = (Some (Inl e), t, (case tx of Some i \<Rightarrow> slot_drop i w | None \<Rightarrow> w))"
  "then_serve tx (Some (Inr x), t) w f = f x t"
  by (simp_all add: then_serve_def)

lemma slot_drop_simps [simp]:
  "keychain (slot_drop i w) = keychain w" "fresh (slot_drop i w) = fresh w"
  "j \<noteq> i \<Longrightarrow> slots (slot_drop i w) j = slots w j"
  by (auto simp: slot_drop_def split: slot.split)

lemma keychain_store [simp]:
  "keychain (store_password i k rx w) = (keychain w)(show_word i \<mapsto> (k, rx))"
  "slots (store_password i k rx w) = slots w" "fresh (store_password i k rx w) = fresh w"
  by (simp_all add: store_password_def keychain_insert_def)

lemma keychain_restore [simp]:
  "keychain (restore_session i k tx b w) = (keychain w)(show_word i \<mapsto> (k, tx))"
  "slots (restore_session i k tx b w) = (slots w)(tx := Stored b)"
  by (simp_all add: restore_session_def slot_send_def)

text \<open>A session: the password for an id is known and its backup can be had.\<close>

definition resumable :: "string \<Rightarrow> otp \<Rightarrow> server_world \<Rightarrow> bool" where
  "resumable i k w \<longleftrightarrow> (\<exists>rx b. keychain w i = Some (k, rx) \<and> await_backup rx w = Some b)"

lemma resumable_drop: "resumable i k w \<Longrightarrow> world_wf w \<Longrightarrow> resumable i k (slot_drop (fresh w) (snd (oneshot w)))"
proof -
  assume "resumable i k w" "world_wf w"
  then obtain rx b where k: "keychain w i = Some (k, rx)" "await_backup rx w = Some b" "rx \<noteq> fresh w"
    unfolding resumable_def world_wf_def by (metis less_irrefl)
  then show ?thesis
    by (intro exI [of _ rx] exI [of _ b] conjI iffD2 [OF resumable_def] exI)
      (auto simp: resumable_def await_backup_def oneshot_def)
qed

lemma serve_connect_Err:
  assumes "serve_connect Ops i tx t w = (Some (Inl e), t', w')"
  shows "w' = slot_drop tx w"
  using assms
  by (auto simp: serve_connect_def then_serve_def split: prod.splits option.splits sum.splits)

lemma serve_reconnect_Err:
  assumes "serve_reconnect Ops i k tx t w = (Some (Err e), t', w')"
  shows "w' = slot_drop tx w
    \<or> (\<exists>rx b b'. keychain w (show_word i) = Some (k, rx) \<and> await_backup rx w = Some b
        \<and> w' = restore_session i k tx b' (w\<lparr>keychain := (keychain w)(show_word i := None)\<rparr>))"
  using assms
  by (auto simp: serve_reconnect_def remove_if_has_key_def Let_def await_backup_def
      split: prod.splits option.splits sum.splits if_splits keychain_result.splits slot.splits)

lemma server_connection_cases:
  assumes "server_connection Ops j t w = (Some r, t', w')"
  obtains (Early) e where "r = Inl e" and "w' = w"
  | (New) t0 t3 q where "op_read_type Ops t0 = (Some (Ok (Some Connect)), t3)"
      and "serve_connect Ops j (fresh w) t3 (snd (oneshot w)) = (Some q, t', w')"
      and "r = map_sum id (\<lambda>i. ServerConnection i (fresh w) t') q"
  | (Old) i k t0 t3 q where "op_read_type Ops t0 = (Some (Ok (Some (Reconnect i k))), t3)"
      and "serve_reconnect Ops i k (fresh w) t3 (snd (oneshot w)) = (Some q, t', w')"
      and "r = map_sum id (\<lambda>i. ServerConnection i (fresh w) t') q"
  using assms
  by (auto simp: server_connection_def then_serve_def Let_def oneshot_def
      split: prod.splits option.splits sum.splits connect_type.splits)

lemma serve_reconnect_Ok:
  assumes "serve_reconnect Ops i k tx t w = (Some (Inr q), t', w')"
  obtains rx new_k t0 t1 where "keychain w (show_word i) = Some (k, rx)" and "q = i"
    and "op_exchange_keys Ops t0 = (Some (Ok new_k), t1)"
    and "keychain w' = (keychain w)(show_word i \<mapsto> (new_k, tx))"
  using assms
  by (auto simp: serve_reconnect_def remove_if_has_key_def Let_def
      split: prod.splits option.splits sum.splits if_splits keychain_result.splits)

definition always_reconnects :: "'t conn_ops \<Rightarrow> connection_id \<Rightarrow> otp \<Rightarrow> bool" where
  "always_reconnects Ops i k \<longleftrightarrow> (\<forall>t. fst (op_read_type Ops t) = Some (Ok (Some (Reconnect i k))))"

lemma server_connection_reconnect:
  assumes "server_connection Ops j t w = (Some (Inr c), t', w')" and "always_reconnects Ops i k"
  obtains rx new_k t0 t1 where "keychain w (show_word i) = Some (k, rx)"
    and "op_exchange_keys Ops t0 = (Some (Ok new_k), t1)"
    and "c = ServerConnection i (fresh w) t'"
    and "keychain w' = (keychain w)(show_word i \<mapsto> (new_k, fresh w))"
  using assms(1)
proof (cases rule: server_connection_cases)
  case (Early e)
  then show ?thesis by simp
next
  case (New t0 t3 q)
  with assms(2) show ?thesis unfolding always_reconnects_def
    by (metis connect_type.distinct(1) fst_conv option.inject sum.inject(2))
next
  case (Old i' k' t0 t3 q)
  have "i' = i" "k' = k" using Old(1) assms(2) unfolding always_reconnects_def
    by (metis connect_type.inject fst_conv option.inject sum.inject(2))+
  moreover obtain p where q: "q = Inr p" using Old(3) by (cases q) auto
  ultimately have "serve_reconnect Ops i k (fresh w) t3 (snd (oneshot w)) = (Some (Inr p), t', w')" using Old(2) by simp
  then obtain rx new_k t0' t1 where "keychain (snd (oneshot w)) (show_word i) = Some (k, rx)" "p = i"
    "op_exchange_keys Ops t0' = (Some (Ok new_k), t1)"
    "keychain w' = (keychain (snd (oneshot w)))(show_word i \<mapsto> (new_k, fresh w))"
    by (rule serve_reconnect_Ok)
  with that Old(3) q show ?thesis by (simp add: oneshot_def)
qed

section \<open>A transport with chosen outcomes\<close>

definition example_ops :: "connect_type \<Rightarrow> otp io \<Rightarrow> unit io \<Rightarrow> backup conn_ops" where
  "example_ops ty key sync = \<lparr>
     op_send_version = (\<lambda>t. (Some (Ok ()), t)), op_read_version = (\<lambda>t. (Some (Ok (replicate 24 0)), t)),
     op_raw_reconnect = (\<lambda>t. (Some (Ok ()), t)), op_handshake = (\<lambda>t. (Some (Ok ()), t)),
     op_write_type = (\<lambda>_ t. (Some (Ok ()), t)), op_read_type = (\<lambda>t. (Some (Ok (Some ty)), t)),
     op_write_id = (\<lambda>_ t. (Some (Ok ()), t)), op_read_id = (\<lambda>t. (Some (Ok (Some 1)), t)),
     op_authenticate = (\<lambda>t. (Some (Ok ()), t)), op_verify = (\<lambda>t. (Some (Ok ()), t)),
     op_exchange_keys = (\<lambda>t. (Some key, t)), op_synchronize = (\<lambda>t. (Some sync, t)),
     backup_of = id, set_backup = (\<lambda>b _. b)\<rparr>"

definition example_world :: server_world where
  "example_world = \<lparr>keychain = [show_word (7 :: connection_id) \<mapsto> ([1], 0)],
     slots = (\<lambda>i. if i = 0 then Stored backup_new else Pending), fresh = 1\<rparr>"

lemma example_world_wf: "world_wf example_world"
  by (simp add: world_wf_def example_world_def)

lemmas connection_eval = server_connection_def serve_reconnect_def serve_connect_def example_ops_def
  example_world_def oneshot_def remove_if_has_key_def await_backup_def Let_def

section \<open>Properties\<close>

text \<open>
  C28: a failed attempt costs no session. Whatever a peer claims to be and at whichever step its
  attempt fails, every session that could be resumed before (its password is on the keychain and
  its backup to be had) can be resumed with the same password afterwards.
\<close>

theorem failed_attempt_keeps_sessions:
  assumes "server_connection Ops j t w = (Some (Err e), t', w')" and "world_wf w" and "resumable i k w"
  shows "resumable i k w'"
  using assms(1)
proof (cases rule: server_connection_cases)
  case (Early e')
  with assms(3) show ?thesis by simp
next
  case (New t0 t3 q)
  then have "w' = slot_drop (fresh w) (snd (oneshot w))" by (cases q) (auto dest: serve_connect_Err)
  with resumable_drop [OF assms(3,2)] show ?thesis by simp
next
  case (Old i' k' t0 t3 q)
  then have "q = Err e" by (cases q) auto
  from serve_reconnect_Err [OF Old(2) [unfolded this]] consider "w' = slot_drop (fresh w) (snd (oneshot w))"
    | rx b' where "keychain (snd (oneshot w)) (show_word i') = Some (k', rx)"
        "w' = restore_session i' k' (fresh w) b'
           ((snd (oneshot w))\<lparr>keychain := (keychain (snd (oneshot w)))(show_word i' := None)\<rparr>)"
    by blast
  then show ?thesis
  proof cases
    case 1
    with resumable_drop [OF assms(3,2)] show ?thesis by simp
  next
    case 2
    from assms(2,3) obtain rx0 b0 where k: "keychain w i = Some (k, rx0)" "await_backup rx0 w = Some b0" "rx0 \<noteq> fresh w"
      unfolding resumable_def world_wf_def by (metis less_irrefl)
    show ?thesis
    proof (cases "i = show_word i'")
      case True
      with 2 k(1) show ?thesis by (simp add: resumable_def await_backup_def oneshot_def)
    next
      case False
      with 2 k show ?thesis by (simp add: resumable_def await_backup_def oneshot_def)
    qed
  qed
qed

theorem failed_attempt_keeps_sessions_witness:
  "resumable (show_word (7 :: connection_id)) [1]
     (snd (snd (server_connection (example_ops (Reconnect 7 [1]) (Ok [2]) (Err UnexpectedEof)) 9 backup_new example_world)))"
proof -
  let ?r = "server_connection (example_ops (Reconnect 7 [1]) (Ok [2]) (Err UnexpectedEof)) 9 backup_new example_world"
  have "fst ?r = Some (Err UnexpectedEof)" by (simp add: connection_eval)
  then have r: "?r = (Some (Err UnexpectedEof), fst (snd ?r), snd (snd ?r))" by (metis prod.collapse)
  have "resumable (show_word (7 :: connection_id)) [1] example_world"
    by (simp add: resumable_def await_backup_def example_world_def)
  from failed_attempt_keeps_sessions [OF r example_world_wf this] show ?thesis .
qed

text \<open>
  C29: a connection is resumed only with its password, and resuming replaces the password: if a
  peer that claims to be connection \<open>i\<close> with password \<open>k\<close> is accepted, then \<open>k\<close> was on the keychain
  for \<open>i\<close>, and now the newly exchanged one is, leading to the new connection's backup.
\<close>

theorem resumed_only_with_password:
  assumes "server_connection Ops j t w = (Some (Ok c), t', w')" and "always_reconnects Ops i k"
  shows "has_key (show_word i) k (keychain w) \<and> conn_id c = i
     \<and> (\<exists>new_k t0 t1. op_exchange_keys Ops t0 = (Some (Ok new_k), t1)
          \<and> keychain w' = (keychain w)(show_word i \<mapsto> (new_k, backup_tx c)))"
proof -
  obtain rx new_k t0 t1 where "keychain w (show_word i) = Some (k, rx)"
    "op_exchange_keys Ops t0 = (Some (Ok new_k), t1)" "c = ServerConnection i (fresh w) t'"
    "keychain w' = (keychain w)(show_word i \<mapsto> (new_k, fresh w))"
    by (rule server_connection_reconnect [OF assms])
  then show ?thesis by (auto simp: has_key_def)
qed

theorem resumed_only_with_password_witness:
  "\<exists>c t' w'. server_connection (example_ops (Reconnect 7 [1]) (Ok [2]) (Ok ())) 9 backup_new example_world = (Some (Ok c), t', w')
     \<and> conn_id c = 7"
proof -
  obtain c t' w' where r: "server_connection (example_ops (Reconnect 7 [1]) (Ok [2]) (Ok ())) 9 backup_new example_world = (Some (Ok c), t', w')"
    by (simp add: connection_eval)
  have "always_reconnects (example_ops (Reconnect 7 [1]) (Ok [2]) (Ok ())) 7 [1]"
    by (simp add: always_reconnects_def example_ops_def)
  from resumed_only_with_password [OF r this] r show ?thesis by blast
qed

text \<open>
  C30: a reconnect that fails on the client after it succeeded on the server loses the session. The
  server has replaced the password as soon as its own synchronisation is done, the client only
  once its own is, so a client whose synchronisation fails keeps the old password, and the server
  turns down every later attempt it makes.
\<close>

theorem half_finished_reconnect_loses_session:
  assumes "connection_reconnect C (ClientConnection i k t) = (Some (Err e), c')"
    and "server_connection S j s w = (Some (Ok d), s', w')" and "always_reconnects S i k"
    and "\<forall>s0 x s1. op_exchange_keys S s0 = (Some (Ok x), s1) \<longrightarrow> x \<noteq> k"
    and "always_reconnects S2 (conn_id c') (reauth_otp c')"
    and "server_connection S2 j2 s2 (connection_drop S d w') = (Some r, s3, w3)"
  shows "\<exists>e'. r = Inl e'"
proof (cases r)
  case (Inr d2)
  have c': "conn_id c' = i" "reauth_otp c' = k"
    using assms(1) by (auto split: prod.splits option.splits sum.splits)
  obtain rx new_k t0 t1 where d: "op_exchange_keys S t0 = (Some (Ok new_k), t1)"
    "keychain w' = (keychain w)(show_word i \<mapsto> (new_k, fresh w))"
    by (rule server_connection_reconnect [OF assms(2,3)])
  then have "new_k \<noteq> k" using assms(4) by blast
  have "keychain (connection_drop S d w') = keychain w'"
    by (simp add: connection_drop_def slot_send_def split: connection.split)
  with d(2) have kc: "keychain (connection_drop S d w') (show_word i) = Some (new_k, fresh w)" by simp
  have rc: "always_reconnects S2 i k" using assms(5) c' by simp
  obtain rx' where "keychain (connection_drop S d w') (show_word i) = Some (k, rx')"
    by (rule server_connection_reconnect [OF assms(6) [unfolded Inr] rc])
  with kc \<open>new_k \<noteq> k\<close> show ?thesis by simp
qed simp

theorem half_finished_reconnect_loses_session_witness:
  "\<exists>c' d s' w'. connection_reconnect (example_ops Connect (Ok [2]) (Err UnexpectedEof)) (ClientConnection 7 [1] backup_new)
       = (Some (Err UnexpectedEof), c')
     \<and> server_connection (example_ops (Reconnect 7 [1]) (Ok [2]) (Ok ())) 9 backup_new example_world = (Some (Ok d), s', w')
     \<and> (\<exists>e. fst (server_connection (example_ops (Reconnect (conn_id c') (reauth_otp c')) (Ok [3]) (Ok ())) 10 backup_new
          (connection_drop (example_ops (Reconnect 7 [1]) (Ok [2]) (Ok ())) d w')) = Some (Inl e))"
proof -
  let ?C = "example_ops Connect (Ok [2]) (Err UnexpectedEof)"
  let ?S = "example_ops (Reconnect 7 [1]) (Ok [2]) (Ok ())"
  obtain c' where c: "connection_reconnect ?C (ClientConnection 7 [1] backup_new) = (Some (Err UnexpectedEof), c')"
    by (simp add: reconnect_client_def example_ops_def)
  obtain d s' w' where d: "server_connection ?S 9 backup_new example_world = (Some (Ok d), s', w')"
    by (simp add: connection_eval)
  let ?S2 = "example_ops (Reconnect (conn_id c') (reauth_otp c')) (Ok [3]) (Ok ())"
  have rc: "always_reconnects ?S 7 [1]" "always_reconnects ?S2 (conn_id c') (reauth_otp c')"
    by (simp_all add: always_reconnects_def example_ops_def)
  have x: "\<forall>s0 x s1. op_exchange_keys ?S s0 = (Some (Ok x), s1) \<longrightarrow> x \<noteq> [1]"
    by (simp add: example_ops_def)
  obtain r s3 w3 where r: "server_connection ?S2 10 backup_new (connection_drop ?S d w') = (Some r, s3, w3)"
  proof -
    have "fst (server_connection ?S2 10 backup_new (connection_drop ?S d w')) \<noteq> None"
      using d c
      by (auto simp: connection_eval connection_drop_def reconnect_client_def slot_send_def store_password_def
          keychain_insert_def map_backup_def show_word_def)
    then show thesis using that by (metis not_None_eq prod.collapse)
  qed
  from half_finished_reconnect_loses_session [OF c d rc(1) x rc(2) r] r c d show ?thesis by auto
qed

end
