(* ===== verification/Address.thy ===== *)
theory Address
  imports Text
begin

text \<open>
  The textual IP addresses of Rust's standard library, which \<open>Host\<close>, \<open>PortRange\<close> and the
  command line rely on: the parser of \<open>core::net\<close> (a recursive descent over the bytes that
  restores its position when a piece fails) and the \<open>Display\<close> of both address types, with the
  compression of the longest run of zero groups. An IPv4 address is its four octets, an IPv6
  address its eight 16-bit segments.
\<close>

type_synonym ipv4 = "byte \<times> byte \<times> byte \<times> byte"
type_synonym ipv6 = "u16 list"

section \<open>The parser\<close>

definition read_number :: "nat \<Rightarrow> nat \<Rightarrow> bool \<Rightarrow> nat \<Rightarrow> string \<Rightarrow> (nat \<times> string) option" where
  "read_number r k zero_prefix mx s =
     (let ds = takeWhile (\<lambda>c. digit_val r c \<noteq> None) s in
      if ds = [] \<or> k < length ds \<or> \<not> zero_prefix \<and> hd ds = CHR ''0'' \<and> 1 < length ds then None
      else case parse_digits r mx 0 ds of
             Inl _ \<Rightarrow> None
           | Inr n \<Rightarrow> Some (n, drop (length ds) s))"

definition read_char :: "char \<Rightarrow> string \<Rightarrow> string option" where
  "read_char c s = (case s of [] \<Rightarrow> None | x # xs \<Rightarrow> if x = c then Some xs else None)"

definition read_separator :: "char \<Rightarrow> nat \<Rightarrow> (string \<Rightarrow> ('a \<times> string) option) \<Rightarrow> string \<Rightarrow> ('a \<times> string) option" where
  "read_separator c i p s = (if i = 0 then p s else Option.bind (read_char c s) p)"

definition read_octet :: "nat \<Rightarrow> string \<Rightarrow> (byte \<times> string) option" where
  "read_octet i s = map_option (\<lambda>(n, t). (word_of_nat n, t)) (read_separator CHR ''.'' i (read_number 10 3 False 255) s)"

definition read_ipv4 :: "string \<Rightarrow> (ipv4 \<times> string) option" where
  "read_ipv4 s =
     Option.bind (read_octet 0 s) (\<lambda>(a, s1).
     Option.bind (read_octet 1 s1) (\<lambda>(b, s2).
     Option.bind (read_octet 2 s2) (\<lambda>(c, s3).
     map_option (\<lambda>(d, s4). ((a, b, c, d), s4)) (read_octet 3 s3))))"

definition join_octets :: "byte \<Rightarrow> byte \<Rightarrow> u16" where
  "join_octets a b = word_of_nat (256 * unat a + unat b)"

text \<open>\<open>read_groups\<close>, from group \<open>i\<close> of at most \<open>limit\<close>; the flag reports a trailing IPv4 address.\<close>

function read_groups :: "nat \<Rightarrow> nat \<Rightarrow> string \<Rightarrow> u16 list \<times> bool \<times> string" where
  "read_groups limit i s =
     (if limit \<le> i then ([], False, s)
      else case (if Suc i < limit then read_separator CHR '':'' i read_ipv4 s else None) of
             Some ((a, b, c, d), s1) \<Rightarrow> ([join_octets a b, join_octets c d], True, s1)
           | None \<Rightarrow>
               (case read_separator CHR '':'' i (read_number 16 4 True 65535) s of
                  None \<Rightarrow> ([], False, s)
                | Some (g, s1) \<Rightarrow>
                    (case read_groups limit (Suc i) s1 of
                       (gs, v4, s2) \<Rightarrow> (word_of_nat g # gs, v4, s2))))"
  by pat_completeness auto
termination
  by (relation "measure (\<lambda>(limit, i, s). limit - i)") auto

declare read_groups.simps [simp del]

definition read_ipv6 :: "string \<Rightarrow> (ipv6 \<times> string) option" where
  "read_ipv6 s =
     (case read_groups 8 0 s of
        (hs, v4, s1) \<Rightarrow>
          if length hs = 8 then Some (hs, s1)
          else if v4 then None
          else Option.bind (read_char CHR '':'' s1) (\<lambda>s2.
               Option.bind (read_char CHR '':'' s2) (\<lambda>s3.
               case read_groups (8 - (length hs + 1)) 0 s3 of
                 (ts, _, s4) \<Rightarrow> Some (hs @ replicate (8 - length ts - length hs) 0 @ ts, s4))))"

definition parse_ipv4 :: "string \<Rightarrow> ipv4 option" where
  "parse_ipv4 s =
     (if 15 < length s then None
      else case read_ipv4 s of Some (a, []) \<Rightarrow> Some a | _ \<Rightarrow> None)"

definition parse_ipv6 :: "string \<Rightarrow> ipv6 option" where
  "parse_ipv6 s = (case read_ipv6 s of Some (a, []) \<Rightarrow> Some a | _ \<Rightarrow> None)"

section \<open>Display\<close>

definition show_ipv4 :: "ipv4 \<Rightarrow> string" where
  "show_ipv4 = (\<lambda>(a, b, c, d). show_word a @ ''.'' @ show_word b @ ''.'' @ show_word c @ ''.'' @ show_word d)"

definition show_group :: "u16 \<Rightarrow> string" where
  "show_group g = show_radix 16 (unat g)"

fun fmt_subslice :: "u16 list \<Rightarrow> string" where
  "fmt_subslice [] = []"
| "fmt_subslice (g # gs) = show_group g @ concat (map (\<lambda>x. '':'' @ show_group x) gs)"

text \<open>The longest run of zero segments, the first of several, as start and length.\<close>

fun zero_span :: "nat \<Rightarrow> nat \<times> nat \<Rightarrow> nat \<times> nat \<Rightarrow> u16 list \<Rightarrow> nat \<times> nat" where
  "zero_span i cur best [] = best"
| "zero_span i cur best (g # gs) =
     (if g = 0
      then let cur' = (if snd cur = 0 then i else fst cur, Suc (snd cur))
           in zero_span (Suc i) cur' (if snd best < snd cur' then cur' else best) gs
      else zero_span (Suc i) (0, 0) best gs)"

definition to_ipv4_mapped :: "ipv6 \<Rightarrow> ipv4 option" where
  "to_ipv4_mapped a =
     (if take 6 a = [0, 0, 0, 0, 0, 65535]
      then Some (ucast (drop_bit 8 (a ! 6)), ucast (a ! 6), ucast (drop_bit 8 (a ! 7)), ucast (a ! 7))
      else None)"

definition show_ipv6 :: "ipv6 \<Rightarrow> string" where
  "show_ipv6 a =
     (case to_ipv4_mapped a of
        Some v \<Rightarrow> ''::ffff:'' @ show_ipv4 v
      | None \<Rightarrow>
          (case zero_span 0 (0, 0) (0, 0) a of
             (st, n) \<Rightarrow>
               if 1 < n then fmt_subslice (take st a) @ ''::'' @ fmt_subslice (drop (st + n) a)
               else fmt_subslice a))"

section \<open>Reading back numbers\<close>

lemma length_show_radix: "2 \<le> r \<Longrightarrow> n < r ^ k \<Longrightarrow> 0 < k \<Longrightarrow> length (show_radix r n) \<le> k"
proof (induction r n arbitrary: k rule: show_radix.induct)
  case (1 r n)
  show ?case
  proof (cases "n < r")
    case True
    with "1.prems" show ?thesis by (simp add: show_radix.simps [of r n])
  next
    case False
    then obtain j where j: "k = Suc j" "0 < j" using "1.prems" by (cases k; cases "k - 1") auto
    have "n div r < r ^ j" using "1.prems" j by (simp add: less_mult_imp_div_less mult.commute)
    with "1.IH" [of j] "1.prems" False j show ?thesis by (simp add: show_radix.simps [of r n])
  qed
qed

lemma hd_show_radix: "2 \<le> r \<Longrightarrow> r \<le> 16 \<Longrightarrow> hd (show_radix r n) = CHR ''0'' \<Longrightarrow> length (show_radix r n) = 1"
proof (induction r n rule: show_radix.induct)
  case (1 r n)
  show ?case
  proof (cases "n < r")
    case True
    with "1.prems" show ?thesis by (simp add: show_radix.simps [of r n])
  next
    case False
    have h: "hd (show_radix r (n div r)) = CHR ''0''"
      using "1.prems" False by (simp add: show_radix.simps [of r n])
    with "1.IH" "1.prems" False have l: "length (show_radix r (n div r)) = 1" by simp
    have "n div r < r"
    proof (rule ccontr)
      assume "\<not> n div r < r"
      with l "1.prems" show False by (simp add: show_radix.simps [of r "n div r"])
    qed
    with h have "digit_char (n div r) = CHR ''0''" by (simp add: show_radix.simps [of r "n div r"])
    moreover have "n div r < 16" using \<open>n div r < r\<close> "1.prems" by simp
    ultimately have "n div r = 0"
      using code_digit_char [of "n div r"] by (auto split: if_splits)
    with False "1.prems" show ?thesis by (simp add: div_eq_0_iff)
  qed
qed

definition stops :: "nat \<Rightarrow> string \<Rightarrow> bool" where
  "stops r s \<longleftrightarrow> s = [] \<or> digit_val r (hd s) = None"

lemma takeWhile_show_radix:
  assumes "2 \<le> r" and "r \<le> 16" and "stops r s"
  shows "takeWhile (\<lambda>c. digit_val r c \<noteq> None) (show_radix r n @ s) = show_radix r n"
proof -
  have "\<forall>c \<in> set (show_radix r n). digit_val r c \<noteq> None"
    using show_radix_digits [OF assms(1,2)] assms(2) by fastforce
  moreover have "takeWhile (\<lambda>c. digit_val r c \<noteq> None) s = []"
    using assms(3) by (cases s) (auto simp: stops_def)
  ultimately show ?thesis by (simp add: takeWhile_append)
qed

lemma read_number_show:
  assumes "2 \<le> r" and "r \<le> 16" and "stops r s" and "n \<le> mx" and "n < r ^ k" and "0 < k"
  shows "read_number r k z mx (show_radix r n @ s) = Some (n, s)"
  using takeWhile_show_radix [OF assms(1-3), of n] length_show_radix [OF assms(1,5,6)]
    hd_show_radix [OF assms(1,2), of n] parse_digits_show [OF assms(1,2,4)]
  by (auto simp: read_number_def Let_def)

lemma read_number_stops: "stops r s \<Longrightarrow> read_number r k z mx s = None"
  by (cases s) (auto simp: read_number_def Let_def stops_def)

lemma read_octet_show:
  assumes "stops 10 s"
  shows "read_octet 0 (show_word b @ s) = Some (b, s)"
    and "0 < i \<Longrightarrow> read_octet i (CHR ''.'' # show_word b @ s) = Some (b, s)"
proof -
  have "unat b \<le> 255" using unsigned_less [of b, where ?'a = nat] by simp
  then have "read_number 10 3 False 255 (show_word b @ s) = Some (unat b, s)"
    unfolding show_word_def using assms by (intro read_number_show) auto
  then show "read_octet 0 (show_word b @ s) = Some (b, s)"
    and "0 < i \<Longrightarrow> read_octet i (CHR ''.'' # show_word b @ s) = Some (b, s)"
    by (simp_all add: read_octet_def read_separator_def read_char_def)
qed

lemma stops_simps [simp]:
  "stops r []"
  "stops 10 (CHR ''.'' # s)" "stops 10 (CHR '':'' # s)" "stops 16 (CHR '':'' # s)"
  by (simp_all add: stops_def digit_val_def char_class_defs)

lemma read_ipv4_show: "stops 10 s \<Longrightarrow> read_ipv4 (show_ipv4 a @ s) = Some (a, s)"
  by (cases a) (simp add: show_ipv4_def read_ipv4_def read_octet_show)

lemma length_show_word: "length (show_word (b :: byte)) \<le> 3"
proof -
  have "unat b < 10 ^ 3" using unsigned_less [of b, where ?'a = nat] by simp
  then show ?thesis by (simp add: show_word_def length_show_radix)
qed

lemma parse_ipv4_show [simp]: "parse_ipv4 (show_ipv4 a) = Some a"
proof -
  obtain p q r s where a: "a = (p, q, r, s)" by (cases a)
  have "length (show_ipv4 a) \<le> 15"
    using length_show_word [of p] length_show_word [of q] length_show_word [of r] length_show_word [of s]
    by (simp add: a show_ipv4_def)
  then show ?thesis using read_ipv4_show [of "[]" a] by (simp add: parse_ipv4_def)
qed

section \<open>Reading back IPv6 addresses\<close>

lemma read_number_suffix: "read_number r k z mx s = Some (n, t) \<Longrightarrow> set t \<subseteq> set s"
  by (auto simp: read_number_def Let_def dest: in_set_dropD split: if_splits sum.splits)

lemma read_char_no: "c \<notin> set s \<Longrightarrow> read_char c s = None"
  by (auto simp: read_char_def split: list.splits)

lemma read_ipv4_no_dot:
  assumes "CHR ''.'' \<notin> set s"
  shows "read_ipv4 s = None"
proof (cases "read_octet 0 s")
  case (Some x)
  obtain a s1 where x: "x = (a, s1)" by (cases x)
  with Some have "set s1 \<subseteq> set s"
    by (auto simp: read_octet_def read_separator_def dest: read_number_suffix)
  with assms have "read_char CHR ''.'' s1 = None" by (auto intro: read_char_no)
  then have "read_octet 1 s1 = None" by (simp add: read_octet_def read_separator_def)
  with Some x show ?thesis by (simp add: read_ipv4_def)
qed (simp add: read_ipv4_def)

lemma read_separator_ipv4_no_dot:
  "CHR ''.'' \<notin> set s \<Longrightarrow> read_separator c i read_ipv4 s = None"
  by (auto simp: read_separator_def read_char_def read_ipv4_no_dot split: list.splits)

lemma group_chars: "CHR ''.'' \<notin> set (show_group g)"
  using show_radix_digits [of 16 "CHR ''.''" "unat g"]
  by (auto simp: show_group_def dest!: arg_cong [of _ _ code] simp: code_digit_char split: if_splits)

text \<open>The text of the groups from position \<open>i\<close> on, each after the first with its separator.\<close>

fun groups_text :: "nat \<Rightarrow> u16 list \<Rightarrow> string" where
  "groups_text i [] = []"
| "groups_text i (g # gs) = (if i = 0 then show_group g else CHR '':'' # show_group g) @ groups_text (Suc i) gs"

lemma groups_text_Suc: "groups_text (Suc i) gs = concat (map (\<lambda>x. '':'' @ show_group x) gs)"
  by (induction gs arbitrary: i) auto

lemma fmt_subslice_groups: "fmt_subslice gs = groups_text 0 gs"
  by (cases gs) (simp_all add: groups_text_Suc)

lemma groups_text_chars: "CHR ''.'' \<notin> set (groups_text i gs)"
  by (induction gs arbitrary: i) (auto simp: group_chars)

lemma stops_groups_text: "stops 16 t \<Longrightarrow> stops 16 (groups_text (Suc i) gs @ t)"
  by (cases gs) simp_all

lemma read_separator_group:
  assumes "stops 16 s"
  shows "read_separator CHR '':'' i (read_number 16 4 True 65535)
           ((if i = 0 then show_group g else CHR '':'' # show_group g) @ s) = Some (unat g, s)"
proof -
  have "unat g < 16 ^ 4" using unsigned_less [of g, where ?'a = nat] by simp
  with assms have "read_number 16 4 True 65535 (show_group g @ s) = Some (unat g, s)"
    unfolding show_group_def by (intro read_number_show) auto
  then show ?thesis by (simp add: read_separator_def read_char_def)
qed

text \<open>What ends a sequence of groups: the end of the text or the compressed zeros.\<close>

definition ends_groups :: "string \<Rightarrow> bool" where
  "ends_groups s \<longleftrightarrow> s = [] \<or> (\<exists>t. s = CHR '':'' # CHR '':'' # t)"

lemma ends_groups_stops: "ends_groups s \<Longrightarrow> stops 16 s"
  by (auto simp: ends_groups_def)

lemma read_number_colon: "read_number 16 k z mx (CHR '':'' # s) = None"
  by (rule read_number_stops) simp

lemma read_groups_end:
  assumes "ends_groups s" and "CHR ''.'' \<notin> set s"
  shows "read_groups limit i s = ([], False, s)"
proof -
  have "read_separator CHR '':'' i (read_number 16 4 True 65535) s = None"
    using assms(1) by (auto simp: ends_groups_def read_separator_def read_char_def read_number_colon
        read_number_stops)
  with read_separator_ipv4_no_dot [OF assms(2)] show ?thesis
    by (simp add: read_groups.simps [of limit i s])
qed

lemma read_groups_text:
  assumes "ends_groups s" and "CHR ''.'' \<notin> set s" and "i + length gs \<le> limit"
  shows "read_groups limit i (groups_text i gs @ s) = (gs, False, s)"
  using assms(3)
proof (induction gs arbitrary: i)
  case Nil
  then show ?case using read_groups_end [OF assms(1,2)] by simp
next
  case (Cons g gs)
  let ?r = "groups_text (Suc i) gs @ s"
  have v4: "read_separator CHR '':'' i read_ipv4 (groups_text i (g # gs) @ s) = None"
    using groups_text_chars [of i "g # gs"] assms(2) by (intro read_separator_ipv4_no_dot) auto
  have "read_separator CHR '':'' i (read_number 16 4 True 65535) (groups_text i (g # gs) @ s) = Some (unat g, ?r)"
    using read_separator_group [OF stops_groups_text [OF ends_groups_stops [OF assms(1)]], of i g i gs] by simp
  with v4 Cons show ?case by (simp add: read_groups.simps [of limit i])
qed

lemma read_groups_text_nil: "length gs \<le> limit \<Longrightarrow> read_groups limit 0 (fmt_subslice gs) = (gs, False, [])"
  using read_groups_text [of "[]" 0 gs limit] by (simp add: ends_groups_def fmt_subslice_groups)

lemma zero_span_spec:
  assumes "snd cur = 0 \<or> fst cur + snd cur = length pre \<and> replicate (snd cur) 0 = drop (fst cur) pre"
    and "snd best = 0 \<or> fst best + snd best \<le> length pre \<and> replicate (snd best) 0 = take (snd best) (drop (fst best) pre)"
    and "zero_span (length pre) cur best gs = (st, n)"
  shows "n = 0 \<or> st + n \<le> length (pre @ gs) \<and> replicate n 0 = take n (drop st (pre @ gs))"
  using assms
proof (induction gs arbitrary: pre cur best)
  case Nil
  then show ?case by auto
next
  case (Cons g gs)
  let ?pre = "pre @ [g]"
  let ?cur = "if g = 0 then (if snd cur = 0 then length pre else fst cur, Suc (snd cur)) else (0, 0)"
  let ?best = "if g = 0 \<and> snd best < snd ?cur then ?cur else best"
  have run: "zero_span (length ?pre) ?cur ?best gs = (st, n)"
    using Cons.prems(3) by (auto simp: Let_def split: if_splits)
  have c: "snd ?cur = 0 \<or> fst ?cur + snd ?cur = length ?pre \<and> replicate (snd ?cur) 0 = drop (fst ?cur) ?pre"
    using Cons.prems(1) by (auto simp: replicate_append_same [symmetric])
  have b: "snd ?best = 0 \<or> fst ?best + snd ?best \<le> length ?pre
      \<and> replicate (snd ?best) 0 = take (snd ?best) (drop (fst ?best) ?pre)"
  proof (cases "g = 0 \<and> snd best < snd ?cur")
    case True
    with c show ?thesis by auto
  next
    case False
    with Cons.prems(2) show ?thesis by auto
  qed
  from Cons.IH [OF c b run] show ?case by simp
qed

lemma read_ipv6_show_plain:
  assumes "length a = 8"
  shows "read_ipv6 (fmt_subslice a) = Some (a, [])"
  using read_groups_text_nil [of a 8] assms by (simp add: read_ipv6_def)

lemma read_ipv6_show_compressed:
  assumes "length hs + n + length ts = 8" and "1 < n"
  shows "read_ipv6 (fmt_subslice hs @ ''::'' @ fmt_subslice ts) = Some (hs @ replicate n 0 @ ts, [])"
proof -
  let ?s = "CHR '':'' # CHR '':'' # fmt_subslice ts"
  have "read_groups 8 0 (fmt_subslice hs @ ?s) = (hs, False, ?s)"
    using read_groups_text [of ?s 0 hs 8] assms groups_text_chars [of 0 ts]
    by (simp add: ends_groups_def fmt_subslice_groups)
  moreover have "read_groups (8 - (length hs + 1)) 0 (fmt_subslice ts) = (ts, False, [])"
    using assms by (intro read_groups_text_nil) simp
  moreover have "8 - length ts - length hs = n" using assms by simp
  ultimately show ?thesis using assms by (simp add: read_ipv6_def read_char_def)
qed

lemma join_octets_parts: "join_octets (ucast (drop_bit 8 x)) (ucast x) = (x :: u16)"
proof -
  have x: "unat x < 65536" using unsigned_less [of x, where ?'a = nat] by simp
  have "unat (ucast (drop_bit 8 x) :: byte) = unat x div 256"
    using x by (simp add: unsigned_ucast_eq drop_bit_eq_div take_bit_eq_mod unat_div)
  moreover have "unat (ucast x :: byte) = unat x mod 256"
    by (simp add: unsigned_ucast_eq take_bit_eq_mod)
  ultimately show ?thesis by (simp add: join_octets_def)
qed

lemma show_ipv6_mapped:
  assumes "length a = 8" and "to_ipv4_mapped a = Some v"
  shows "a = replicate 5 0 @ [65535, join_octets (fst v) (fst (snd v)), join_octets (fst (snd (snd v))) (snd (snd (snd v)))]"
proof -
  have t: "take 6 a = [0, 0, 0, 0, 0, 65535]"
    and v: "v = (ucast (drop_bit 8 (a ! 6)), ucast (a ! 6), ucast (drop_bit 8 (a ! 7)), ucast (a ! 7))"
    using assms(2) by (auto simp: to_ipv4_mapped_def split: if_splits)
  have "drop 6 a = [a ! 6, a ! 7]"
    using assms(1) by (simp add: Cons_nth_drop_Suc [symmetric] numeral_eq_Suc)
  then have "a = [0, 0, 0, 0, 0, 65535] @ [a ! 6, a ! 7]" using t by (metis append_take_drop_id)
  moreover have "replicate 5 0 = [0, 0, 0, 0, 0 :: u16]" by (simp add: numeral_eq_Suc)
  ultimately show ?thesis by (simp only: v fst_conv snd_conv join_octets_parts append.simps)
qed

lemma read_ipv6_mapped:
  "read_ipv6 (''::ffff:'' @ show_ipv4 (p, q, r, s)) = Some (replicate 5 0 @ [65535, join_octets p q, join_octets r s], [])"
proof -
  let ?t = "show_ipv4 (p, q, r, s)"
  let ?f = "CHR ''f'' # CHR ''f'' # CHR ''f'' # CHR ''f'' # CHR '':'' # ?t"
  have "read_separator CHR '':'' 0 read_ipv4 (CHR '':'' # CHR '':'' # ?f) = None"
    by (simp add: read_separator_def read_ipv4_def read_octet_def read_number_stops)
  then have front: "read_groups 8 0 (CHR '':'' # CHR '':'' # ?f) = ([], False, CHR '':'' # CHR '':'' # ?f)"
    by (simp add: read_groups.simps read_separator_def read_number_colon)
  have "read_number 16 4 True 65535 (show_radix 16 65535 @ CHR '':'' # ?t) = Some (65535, CHR '':'' # ?t)"
    by (rule read_number_show) simp_all
  moreover have "digit_char 15 = CHR ''f''"
    by (rule of_char_eq_iff [where ?'a = nat, THEN iffD1]) (simp add: code_digit_char)
  then have "show_radix 16 65535 = ''ffff''" by (simp add: show_radix.simps)
  ultimately have n: "read_number 16 4 True 65535 ?f = Some (65535, CHR '':'' # ?t)" by simp
  have "stops 10 ?f" by (simp add: stops_def digit_val_def char_class_defs)
  then have "read_ipv4 ?f = None" by (simp add: read_ipv4_def read_octet_def read_separator_def read_number_stops)
  moreover have "read_ipv4 ?t = Some ((p, q, r, s), [])" using read_ipv4_show [of "[]"] by simp
  ultimately have "read_groups 7 0 ?f = ([65535, join_octets p q, join_octets r s], True, [])"
    using n by (simp add: read_groups.simps [of 7 0] read_groups.simps [of 7 "Suc 0"] read_separator_def read_char_def)
  with front show ?thesis by (simp add: read_ipv6_def read_char_def)
qed

lemma parse_ipv6_show [simp]:
  assumes "length a = 8"
  shows "parse_ipv6 (show_ipv6 a) = Some a"
proof -
  have "read_ipv6 (show_ipv6 a) = Some (a, [])"
  proof (cases "to_ipv4_mapped a")
    case (Some v)
    obtain p q r s where v: "v = (p, q, r, s)" by (cases v)
    have "a = replicate 5 0 @ [65535, join_octets p q, join_octets r s]"
      using show_ipv6_mapped [OF assms Some] v by simp
    with read_ipv6_mapped [of p q r s] Some v show ?thesis by (simp add: show_ipv6_def)
  next
    case None
    obtain st n where z: "zero_span 0 (0, 0) (0, 0) a = (st, n)" by fastforce
    show ?thesis
    proof (cases "1 < n")
      case True
      with zero_span_spec [of "(0, 0)" "[]" "(0, 0)" a st n] z
      have le: "st + n \<le> 8" and zs: "replicate n 0 = take n (drop st a)" using assms by auto
      have "a = take st a @ replicate n 0 @ drop (st + n) a"
        by (metis zs append_take_drop_id drop_drop add.commute)
      moreover have "read_ipv6 (fmt_subslice (take st a) @ ''::'' @ fmt_subslice (drop (st + n) a)) =
          Some (take st a @ replicate n 0 @ drop (st + n) a, [])"
        using le assms True by (intro read_ipv6_show_compressed) auto
      ultimately show ?thesis using None z True by (simp add: show_ipv6_def)
    next
      case False
      with None z read_ipv6_show_plain [OF assms] show ?thesis by (simp add: show_ipv6_def)
    qed
  qed
  then show ?thesis by (simp add: parse_ipv6_def)
qed

section \<open>Shape of what is read and shown\<close>

lemma read_groups_length: "read_groups limit i s = (gs, v4, t) \<Longrightarrow> i + length gs \<le> max i limit"
proof (induction limit i s arbitrary: gs v4 t rule: read_groups.induct)
  case (1 limit i s)
  show ?case
  proof (cases "limit \<le> i")
    case True
    with "1.prems" show ?thesis by (simp add: read_groups.simps [of limit i s])
  next
    case False
    note unfolded = "1.prems" [unfolded read_groups.simps [of limit i s]]
    let ?v4 = "if Suc i < limit then read_separator CHR '':'' i read_ipv4 s else None"
    show ?thesis
    proof (cases ?v4)
      case (Some x)
      then have "Suc i < limit" by (auto split: if_splits)
      with unfolded False Some show ?thesis by (cases x) auto
    next
      case None
      note v4 = this
      show ?thesis
      proof (cases "read_separator CHR '':'' i (read_number 16 4 True 65535) s")
        case (Some y)
        obtain g s1 where y: "y = (g, s1)" by (cases y)
        obtain gs1 v s2 where rec: "read_groups limit (Suc i) s1 = (gs1, v, s2)" by (cases "read_groups limit (Suc i) s1")
        have "gs = word_of_nat g # gs1" using unfolded False v4 Some y rec by simp
        with "1.IH" [OF False v4 Some y [symmetric] rec] False show ?thesis by simp
      qed (use unfolded False v4 in simp)
    qed
  qed
qed

lemma parse_ipv6_length:
  assumes "parse_ipv6 s = Some a"
  shows "length a = 8"
proof -
  obtain hs v4 s1 where h: "read_groups 8 0 s = (hs, v4, s1)" by (cases "read_groups 8 0 s")
  have rd: "read_ipv6 s = Some (a, [])" using assms by (auto simp: parse_ipv6_def split: option.splits list.splits)
  show ?thesis
  proof (cases "length hs = 8")
    case True
    with rd h show ?thesis by (simp add: read_ipv6_def)
  next
    case False
    with read_groups_length [OF h] have lt: "length hs < 8" by simp
    from False rd h obtain s3 where r: "(case read_groups (8 - (length hs + 1)) 0 s3 of
        (ts, _, s4) \<Rightarrow> Some (hs @ replicate (8 - length ts - length hs) 0 @ ts, s4)) = Some (a, [])"
      by (auto simp: read_ipv6_def bind_eq_Some_conv simp del: One_nat_def split: if_splits)
    obtain ts v5 s4 where ts: "read_groups (8 - (length hs + 1)) 0 s3 = (ts, v5, s4)"
      by (cases "read_groups (8 - (length hs + 1)) 0 s3")
    with r have a: "a = hs @ replicate (8 - length ts - length hs) 0 @ ts" by simp
    have "length ts \<le> 8 - (length hs + 1)" using read_groups_length [OF ts] by simp
    with a lt show ?thesis by simp
  qed
qed

end
