(* ===== verification/Host.thy ===== *)
theory Host
  imports Address
begin

text \<open>
  The host of a destination (\<open>distant-core/src/net/common/destination/host.rs\<close>): an IP address or
  a host name, the errors of the name check, and the parser that decides between the three.
\<close>

datatype host = Ipv4 ipv4 | Ipv6 ipv6 | Name string

datatype host_parse_error =
    EmptyLabel
  | EndsWithHyphen
  | EndsWithPeriod
  | InvalidLabel
  | LargeLabel
  | LargeName
  | StartsWithHyphen
  | StartsWithPeriod

section \<open>Classification\<close>

text \<open>The predicates of the standard library's \<open>Ipv4Addr\<close> and \<open>Ipv6Addr\<close>.\<close>

fun is_broadcast :: "ipv4 \<Rightarrow> bool" where
  "is_broadcast (a, b, c, d) \<longleftrightarrow> a = 255 \<and> b = 255 \<and> c = 255 \<and> d = 255"

fun is_documentation :: "ipv4 \<Rightarrow> bool" where
  "is_documentation (a, b, c, d) \<longleftrightarrow>
     a = 192 \<and> b = 0 \<and> c = 2 \<or> a = 198 \<and> b = 51 \<and> c = 100 \<or> a = 203 \<and> b = 0 \<and> c = 113"

fun is_link_local :: "ipv4 \<Rightarrow> bool" where
  "is_link_local (a, b, c, d) \<longleftrightarrow> a = 169 \<and> b = 254"

fun is_loopback :: "ipv4 \<Rightarrow> bool" where
  "is_loopback (a, b, c, d) \<longleftrightarrow> a = 127"

fun is_private :: "ipv4 \<Rightarrow> bool" where
  "is_private (a, b, c, d) \<longleftrightarrow> a = 10 \<or> a = 172 \<and> 16 \<le> b \<and> b \<le> 31 \<or> a = 192 \<and> b = 168"

fun is_unspecified :: "ipv4 \<Rightarrow> bool" where
  "is_unspecified (a, b, c, d) \<longleftrightarrow> a = 0 \<and> b = 0 \<and> c = 0 \<and> d = 0"

definition is_multicast_v6 :: "ipv6 \<Rightarrow> bool" where
  "is_multicast_v6 a \<longleftrightarrow> and (a ! 0) 0xff00 = 0xff00"

fun is_global :: "host \<Rightarrow> bool" where
  "is_global (Ipv4 x) \<longleftrightarrow>
     \<not> (is_broadcast x \<or> is_documentation x \<or> is_link_local x \<or> is_loopback x \<or> is_private x \<or> is_unspecified x)"
| "is_global (Ipv6 x) \<longleftrightarrow> is_multicast_v6 x \<and> and (x ! 0) 0x000f = 14"
| "is_global (Name s) \<longleftrightarrow> False"

fun is_ipv4 :: "host \<Rightarrow> bool" where
  "is_ipv4 (Ipv4 x) = True" | "is_ipv4 (Ipv6 x) = False" | "is_ipv4 (Name x) = False"

fun is_ipv6 :: "host \<Rightarrow> bool" where
  "is_ipv6 (Ipv4 x) = False" | "is_ipv6 (Ipv6 x) = True" | "is_ipv6 (Name x) = False"

fun is_name :: "host \<Rightarrow> bool" where
  "is_name (Ipv4 x) = False" | "is_name (Ipv6 x) = False" | "is_name (Name x) = True"

section \<open>Errors as text\<close>

fun into_static_str :: "host_parse_error \<Rightarrow> string" where
  "into_static_str EmptyLabel = ''Hostname cannot have an empty label''"
| "into_static_str EndsWithHyphen = ''Hostname cannot end with hyphen ('-')''"
| "into_static_str EndsWithPeriod = ''Hostname cannot end with period ('.')''"
| "into_static_str InvalidLabel = ''Hostname label can only be a-zA-Z0-9 or hyphen ('-')''"
| "into_static_str LargeLabel = ''Hostname label larger cannot be larger than 63 characters''"
| "into_static_str LargeName = ''Hostname cannot be larger than 253 characters''"
| "into_static_str StartsWithHyphen = ''Hostname cannot start with hyphen ('-')''"
| "into_static_str StartsWithPeriod = ''Hostname cannot start with period ('.')''"

section \<open>Parsing and display\<close>

text \<open>The loop over the characters of a name, at index \<open>i\<close> with \<open>cnt\<close> label characters seen.\<close>

fun name_loop :: "nat \<Rightarrow> nat \<Rightarrow> char option \<Rightarrow> string \<Rightarrow> host_parse_error + char option" where
  "name_loop i cnt last_char [] = Inr last_char"
| "name_loop i cnt last_char (c # cs) =
     (if 253 \<le> i then Inl LargeName
      else if i = 0 \<and> c = CHR ''.'' then Inl StartsWithPeriod
      else if i = 0 \<and> c = CHR ''-'' then Inl StartsWithHyphen
      else if is_alphanumeric c then
        (if 63 < cnt + 1 then Inl LargeLabel else name_loop (i + 1) (cnt + 1) (Some c) cs)
      else if c = CHR ''.'' then
        (if cnt = 0 then Inl EmptyLabel else name_loop (i + 1) 0 (Some c) cs)
      else if c \<noteq> CHR ''-'' then Inl InvalidLabel
      else name_loop (i + 1) cnt (Some c) cs)"

definition host_from_str :: "string \<Rightarrow> host_parse_error + host" where
  "host_from_str s =
     (case parse_ipv4 s of
        Some x \<Rightarrow> Inr (Ipv4 x)
      | None \<Rightarrow> (case parse_ipv6 s of
          Some x \<Rightarrow> Inr (Ipv6 x)
        | None \<Rightarrow>
            if s = [] then Inl InvalidLabel
            else (case name_loop 0 0 None s of
                    Inl e \<Rightarrow> Inl e
                  | Inr last_char \<Rightarrow>
                      if last_char = Some CHR ''.'' then Inl EndsWithPeriod
                      else if last_char = Some CHR ''-'' then Inl EndsWithHyphen
                      else Inr (Name s))))"

fun show_host :: "host \<Rightarrow> string" where
  "show_host (Ipv4 x) = show_ipv4 x"
| "show_host (Ipv6 x) = show_ipv6 x"
| "show_host (Name s) = s"

definition host_eq_str :: "host \<Rightarrow> string \<Rightarrow> bool" where
  "host_eq_str h s \<longleftrightarrow> (case h of Ipv4 x \<Rightarrow> show_ipv4 x = s | Ipv6 x \<Rightarrow> show_ipv6 x = s | Name x \<Rightarrow> x = s)"

section \<open>What the name check accepts\<close>


definition counted :: "string \<Rightarrow> nat" where
  "counted l = length (filter is_alphanumeric l)"

lemma counted_simps [simp]:
  "counted [] = 0"
  "counted (c # l) = (if is_alphanumeric c then Suc (counted l) else counted l)"
  by (simp_all add: counted_def)







lemma dot_hyphen_class [simp]: "\<not> is_alphanumeric CHR ''.''" "\<not> is_alphanumeric CHR ''-''"
  by (simp_all add: char_class_defs)



section \<open>The characters of a host\<close>

lemma show_word_chars: "c \<in> set (show_word w) \<Longrightarrow> is_digit c"
  by (simp add: show_word_def show_dec_digits)

lemma show_ipv4_chars: "c \<in> set (show_ipv4 a) \<Longrightarrow> is_digit c \<or> c = CHR ''.''"
  by (cases a) (auto simp: show_ipv4_def dest: show_word_chars)

lemma show_group_chars: "c \<in> set (show_group g) \<Longrightarrow> is_digit c \<or> is_lower c"
  using show_radix_digits [of 16 c "unat g"]
  by (auto simp: show_group_def is_digit_def is_lower_def code_digit_char split: if_splits)

lemma fmt_subslice_chars: "c \<in> set (fmt_subslice gs) \<Longrightarrow> is_digit c \<or> is_lower c \<or> c = CHR '':''"
  by (cases gs) (auto dest: show_group_chars split: if_splits)

lemma show_ipv6_chars: "c \<in> set (show_ipv6 a) \<Longrightarrow> is_digit c \<or> is_lower c \<or> c = CHR '':'' \<or> c = CHR ''.''"
  by (auto simp: show_ipv6_def is_lower_def dest: show_ipv4_chars fmt_subslice_chars
      split: option.splits prod.splits if_splits)

lemma show_ipv6_hd: "length a = 8 \<Longrightarrow> hd (show_ipv6 a) \<noteq> CHR ''[''"
proof -
  assume "length a = 8"
  then have "show_ipv6 a \<noteq> []"
    by (cases a) (auto simp: show_ipv6_def show_group_def split: option.splits prod.splits)
  then have "hd (show_ipv6 a) \<in> set (show_ipv6 a)" by simp
  then show ?thesis by (auto simp: is_digit_def is_lower_def dest!: show_ipv6_chars)
qed

definition colons :: "string \<Rightarrow> nat" where
  "colons s = length (filter (\<lambda>c. c = CHR '':'') s)"

lemma colons_simps [simp]:
  "colons [] = 0" "colons (s @ t) = colons s + colons t"
  "colons (c # s) = (if c = CHR '':'' then Suc (colons s) else colons s)"
  by (simp_all add: colons_def)

lemma colons_zero: "CHR '':'' \<notin> set s \<Longrightarrow> colons s = 0"
  by (induction s) auto

lemma colons_zero_iff: "colons s = 0 \<longleftrightarrow> CHR '':'' \<notin> set s"
  by (induction s) auto

lemma colons_show_word [simp]: "colons (show_word w) = 0"
  by (auto simp: colons_zero_iff is_digit_def dest: show_word_chars)

lemma colons_show_ipv6: "length a = 8 \<Longrightarrow> 1 < colons (show_ipv6 a)"
proof -
  assume a: "length a = 8"
  have "length gs \<le> colons (concat (map (\<lambda>x. '':'' @ show_group x) gs))" for gs
    by (induction gs) auto
  then have "length a \<le> Suc (colons (fmt_subslice a))" by (cases a) (auto intro: le_SucI trans_le_add2)
  with a show ?thesis by (auto simp: show_ipv6_def split: option.splits prod.splits)
qed

section \<open>Reading back a host\<close>

lemma colons_read_octet:
  assumes "read_octet i s = Some (b, t)"
  shows "colons t = colons s"
proof -
  have num: "colons t = colons s" if "read_number 10 k z mx s = Some (n, t)" for k z mx s n t
  proof -
    let ?P = "\<lambda>c. digit_val 10 c \<noteq> None"
    from that have t: "t = drop (length (takeWhile ?P s)) s"
      by (auto simp: read_number_def Let_def split: if_splits sum.splits)
    have "colons (takeWhile ?P s) = 0"
      by (auto simp: colons_zero_iff digit_val_def char_class_defs dest!: set_takeWhileD)
    moreover have "s = takeWhile ?P s @ t" unfolding t by (simp add: dropWhile_eq_drop [symmetric])
    ultimately show ?thesis by (metis add_0 colons_simps(2))
  qed
  have "colons s1 = colons s" if "read_char CHR ''.'' s = Some s1" for s1
    using that by (auto simp: read_char_def split: list.splits if_splits)
  with assms num show ?thesis
    by (auto simp: read_octet_def read_separator_def bind_eq_Some_conv split: if_splits)
qed

lemma parse_ipv4_colons: "0 < colons s \<Longrightarrow> parse_ipv4 s = None"
proof -
  assume c: "0 < colons s"
  have "colons t = colons s" if "read_ipv4 s = Some (a, t)" for a t
    using that by (auto simp: read_ipv4_def bind_eq_Some_conv dest!: colons_read_octet)
  with c show ?thesis by (force simp: parse_ipv4_def split: option.splits list.splits)
qed

lemma host_from_str_Inr:
  "host_from_str s = Inr h \<Longrightarrow> (\<exists>x. h = Ipv4 x) \<or> (\<exists>x. h = Ipv6 x \<and> length x = 8) \<or> h = Name s"
  by (auto simp: host_from_str_def dest: parse_ipv6_length split: option.splits if_splits sum.splits)

lemma show_host_parses:
  assumes "host_from_str s = Inr h"
  shows "host_from_str (show_host h) = Inr h"
  using host_from_str_Inr [OF assms]
proof (elim disjE exE conjE)
  fix x assume "h = Ipv4 x"
  then show ?thesis by (simp add: host_from_str_def)
next
  fix x assume h: "h = Ipv6 x" "length x = 8"
  then have "parse_ipv4 (show_ipv6 x) = None" using colons_show_ipv6 [of x] by (simp add: parse_ipv4_colons)
  with h show ?thesis by (simp add: host_from_str_def)
next
  assume "h = Name s"
  with assms show ?thesis by simp
qed




section \<open>Properties\<close>


end
