(* ===== verification/Destination.thy ===== *)
theory Destination
  imports Host
begin


section \<open>Combinators\<close>








section \<open>The parser\<close>

definition scheme_char :: "char \<Rightarrow> bool" where
  "scheme_char c \<longleftrightarrow> is_alphanumeric c \<or> c = CHR ''+'' \<or> c = CHR ''.'' \<or> c = CHR ''-''"





record destination =
  scheme :: "string option"
  username :: "string option"
  password :: "string option"
  host_of :: host
  port :: "u16 option"



section \<open>Display and scheme helpers\<close>

definition show_destination :: "destination \<Rightarrow> string" where
  "show_destination d =
     (case scheme d of Some sch \<Rightarrow> sch @ ''://'' | None \<Rightarrow> [])
     @ (case username d of Some u \<Rightarrow> u | None \<Rightarrow> [])
     @ (case password d of Some p \<Rightarrow> '':'' @ p | None \<Rightarrow> [])
     @ (if username d \<noteq> None \<or> password d \<noteq> None then ''@'' else [])
     @ (if is_ipv6 (host_of d) \<and> port d \<noteq> None then ''['' @ show_host (host_of d) @ '']'' else show_host (host_of d))
     @ (case port d of Some p \<Rightarrow> '':'' @ show_word p | None \<Rightarrow> [])"

definition scheme_eq :: "destination \<Rightarrow> string \<Rightarrow> bool" where
  "scheme_eq d s = (case scheme d of Some sch \<Rightarrow> eq_ignore_case sch s | None \<Rightarrow> False)"

definition extract_scheme :: "string \<Rightarrow> string option" where
  "extract_scheme s = map_option fst (split_once ''://'' s)"

definition ensure_scheme :: "string \<Rightarrow> string \<Rightarrow> string" where
  "ensure_scheme s dflt = (if contains ''://'' s then s else dflt @ ''://'' @ s)"

definition destination_eq_str :: "destination \<Rightarrow> string \<Rightarrow> bool" where
  "destination_eq_str d s \<longleftrightarrow> show_destination d = s"

section \<open>The destinations a text can name\<close>








section \<open>Reading back a destination\<close>



lemma split_once_scheme: "CHR '':'' \<notin> set u \<Longrightarrow> split_once ''://'' (u @ ''://'' @ r) = Some (u, r)"
  by (induction u) (auto simp: starts_with_def)

lemma scheme_char_not [simp]:
  "\<not> scheme_char CHR '':''" "\<not> scheme_char CHR ''@''" "\<not> scheme_char CHR ''/''"
  by (simp_all add: scheme_char_def char_class_defs)

lemma alphanumeric_not [simp]:
  "\<not> is_alphanumeric CHR '':''" "\<not> is_alphanumeric CHR ''@''" "\<not> is_alphanumeric CHR ''/''"
  "\<not> is_alphanumeric CHR ''[''" "\<not> is_alphanumeric CHR '']''"
  by (simp_all add: char_class_defs)

lemma digit_not [simp]:
  "\<not> is_digit CHR '':''" "\<not> is_digit CHR ''@''" "\<not> is_digit CHR ''/''"
  by (simp_all add: char_class_defs)















section \<open>What the parser returns\<close>







section \<open>Schemes\<close>

lemma extract_scheme_ensure:
  assumes "CHR '':'' \<notin> set dflt"
  shows "extract_scheme (ensure_scheme s dflt) = Some (case extract_scheme s of Some x \<Rightarrow> x | None \<Rightarrow> dflt)"
  using split_once_scheme [OF assms, of s]
  by (auto simp: extract_scheme_def ensure_scheme_def contains_split split: option.splits)

lemma ensure_scheme_idem: "CHR '':'' \<notin> set dflt \<Longrightarrow> ensure_scheme (ensure_scheme s dflt) d = ensure_scheme s dflt"
  using split_once_scheme [of dflt s] by (auto simp: ensure_scheme_def contains_split)

section \<open>Properties\<close>


end
