(* ===== verification/Ports.thy ===== *)
theory Ports
  imports Address
begin

text \<open>
  Port ranges (\<open>distant-core/src/net/common/port.rs\<close>): text form \<open>START[:END]\<close>, iteration, socket
  addresses, and the visitor that deserialises a range from a string or any integer.
\<close>

record port_range =
  start :: u16
  finish :: "u16 option"

definition ephemeral :: port_range where
  "ephemeral = \<lparr>start = 0, finish = None\<rparr>"

definition single :: "u16 \<Rightarrow> port_range" where
  "single p = \<lparr>start = p, finish = None\<rparr>"

definition is_ephemeral :: "port_range \<Rightarrow> bool" where
  "is_ephemeral r \<longleftrightarrow> r = ephemeral"

text \<open>\<open>From<RangeInclusive<u16>>\<close>.\<close>

definition from_range :: "u16 \<Rightarrow> u16 \<Rightarrow> port_range" where
  "from_range a b = \<lparr>start = a, finish = Some b\<rparr>"

text \<open>The values of the inclusive range \<open>a..=b\<close>, in order.\<close>

definition range_inclusive :: "u16 \<Rightarrow> u16 \<Rightarrow> u16 list" where
  "range_inclusive a b = map word_of_nat [unat a ..< Suc (unat b)]"

definition into_iter :: "port_range \<Rightarrow> u16 list" where
  "into_iter r = range_inclusive (start r) (case finish r of Some e \<Rightarrow> e | None \<Rightarrow> start r)"

definition make_socket_addrs :: "port_range \<Rightarrow> 'ip \<Rightarrow> ('ip \<times> u16) list" where
  "make_socket_addrs r addr = foldl (\<lambda>socket_addrs p. socket_addrs @ [(addr, p)]) [] (into_iter r)"

definition show_port_range :: "port_range \<Rightarrow> string" where
  "show_port_range r =
     show_word (start r) @ (case finish r of Some e \<Rightarrow> '':'' @ show_word e | None \<Rightarrow> [])"

text \<open>The index of the first colon decides; a colon at the very end is left to the number parser.\<close>

definition parse_port_range :: "string \<Rightarrow> parse_int_error + port_range" where
  "parse_port_range s =
     (case split_once '':'' s of
        Some (a, b) \<Rightarrow>
          if b \<noteq> [] then
            bind_io (parse_u16 a) (\<lambda>x. bind_io (parse_u16 b) (\<lambda>y. Inr \<lparr>start = x, finish = Some y\<rparr>))
          else map_sum id single (parse_u16 s)
      | None \<Rightarrow> map_sum id single (parse_u16 s))"

text \<open>What a deserialiser hands the visitor: a string, or an integer of any width and sign.\<close>

datatype visited = VisitStr string | VisitInt int

definition try_into_u16 :: "int \<Rightarrow> u16 option" where
  "try_into_u16 v = (if 0 \<le> v \<and> v < 65536 then Some (word_of_int v) else None)"

definition visit_port_range :: "visited \<Rightarrow> port_range option" where
  "visit_port_range v =
     (case v of
        VisitStr s \<Rightarrow> (case parse_port_range s of Inl _ \<Rightarrow> None | Inr r \<Rightarrow> Some r)
      | VisitInt n \<Rightarrow> map_option (\<lambda>p. \<lparr>start = p, finish = None\<rparr>) (try_into_u16 n))"

definition serialize_port_range :: "port_range \<Rightarrow> visited" where
  "serialize_port_range r = VisitStr (show_port_range r)"

section \<open>Facts\<close>

lemma make_socket_addrs_map: "make_socket_addrs r addr = map (Pair addr) (into_iter r)"
proof -
  have "foldl (\<lambda>acc p. acc @ [(addr, p)]) acc ps = acc @ map (Pair addr) ps" for acc and ps :: "u16 list"
    by (induction ps arbitrary: acc) auto
  then show ?thesis by (simp add: make_socket_addrs_def)
qed

lemma unat_word_of_nat_upto: "n \<in> set [unat a ..< Suc (unat b)] \<Longrightarrow> unat (word_of_nat n :: u16) = n"
  for a b :: u16
  using unsigned_less [of b, where ?'a = nat] by (simp add: unat_of_nat del: upt_Suc)

lemma range_inclusive_unat: "map unat (range_inclusive a b) = [unat a ..< Suc (unat b)]"
  unfolding range_inclusive_def map_map comp_def
  by (rule map_idI) (rule unat_word_of_nat_upto)

lemma set_range_inclusive: "set (range_inclusive a b) = {p. a \<le> p \<and> p \<le> b}"
proof -
  have im: "unat ` set (range_inclusive a b) = {unat a ..< Suc (unat b)}"
    by (metis range_inclusive_unat set_map set_upt)
  have "p \<in> set (range_inclusive a b) \<longleftrightarrow> a \<le> p \<and> p \<le> b" for p
  proof -
    have "p \<in> set (range_inclusive a b) \<longleftrightarrow> unat p \<in> unat ` set (range_inclusive a b)"
      by (auto simp flip: word_unat_eq_iff)
    also have "\<dots> \<longleftrightarrow> a \<le> p \<and> p \<le> b"
      unfolding im by (simp add: word_le_nat_alt less_Suc_eq_le)
    finally show ?thesis .
  qed
  then show ?thesis by blast
qed

lemma split_colon_show: "split_once '':'' (show_word a @ CHR '':'' # t) = Some (show_word a, t)"
proof -
  have "CHR '':'' \<notin> set (show_word a)"
    by (auto simp: show_word_def is_digit_def dest: show_dec_digits)
  then show ?thesis by (rule split_once_char)
qed

lemma show_word_nonempty: "show_word w \<noteq> []"
  by (simp add: show_word_def)

lemma split_colon_show_None: "split_once '':'' (show_word a) = None"
  by (rule split_once_char_None) (auto simp: show_word_def is_digit_def dest: show_dec_digits)

section \<open>Properties\<close>

text \<open>
  C19: a port range survives display and parsing, and serialisation followed by deserialisation;
  an integer is accepted exactly when it fits in 16 bits, whatever its type.
\<close>

theorem port_range_roundtrip:
  "parse_port_range (show_port_range r) = Inr r
   \<and> visit_port_range (serialize_port_range r) = Some r
   \<and> (visit_port_range (VisitInt n) = Some r \<longleftrightarrow> 0 \<le> n \<and> n < 2 ^ 16 \<and> r = single (word_of_int n))"
proof -
  have "parse_port_range (show_port_range r) = Inr r"
    by (cases r; cases "finish r")
      (auto simp: show_port_range_def parse_port_range_def split_colon_show split_colon_show_None
        show_word_nonempty single_def)
  then show ?thesis
    by (auto simp: visit_port_range_def serialize_port_range_def try_into_u16_def single_def)
qed

text \<open>
  C20: the socket addresses made from a range pair the address with every port from start to end,
  both included, each once and in increasing order; an inverted range gives none, and a range up
  to port 65535 ends there.
\<close>

theorem make_socket_addrs_exact:
  "set (make_socket_addrs r addr) =
     {(addr, p) |p. start r \<le> p \<and> p \<le> (case finish r of Some e \<Rightarrow> e | None \<Rightarrow> start r)}
   \<and> distinct (make_socket_addrs r addr)
   \<and> sorted (map (unat \<circ> snd) (make_socket_addrs r addr))"
proof -
  let ?e = "case finish r of Some e \<Rightarrow> e | None \<Rightarrow> start r"
  have u: "map unat (into_iter r) = [unat (start r) ..< Suc (unat ?e)]"
    by (simp add: into_iter_def range_inclusive_unat del: upt_Suc)
  then have "distinct (into_iter r)" by (metis distinct_map distinct_upt)
  moreover have "sorted (map unat (into_iter r))" unfolding u by (rule sorted_upt)
  ultimately show ?thesis
    by (auto simp: make_socket_addrs_map distinct_map inj_on_def into_iter_def set_range_inclusive comp_def)
qed

end
