(* ===== verification/NetMap.thy ===== *)
theory NetMap
  imports Text
begin

text \<open>
  The string map of connection options (\<open>distant-core/src/net/common/map.rs\<close>). The \<open>HashMap\<close> is a
  map; where the code iterates over one, in an order of the hash table's choosing, the model takes
  the sequence of entries it meets, and the theorems hold for every such sequence.
\<close>

type_synonym net_map = "string \<rightharpoonup> string"

definition map_new :: net_map where
  "map_new = Map.empty"

text \<open>\<open>entries kvs m\<close>: \<open>kvs\<close> is an order in which the iterator may visit \<open>m\<close>.\<close>

definition entries :: "(string \<times> string) list \<Rightarrow> net_map \<Rightarrow> bool" where
  "entries kvs m \<longleftrightarrow> distinct (map fst kvs) \<and> map_of kvs = m"

fun merge :: "net_map \<Rightarrow> (string \<times> string) list \<Rightarrow> bool \<Rightarrow> net_map" where
  "merge m [] keep = m"
| "merge m ((k, v) # other) keep =
     (case m k of
        Some _ \<Rightarrow> if keep then merge m other keep else merge (m(k \<mapsto> v)) other keep
      | None \<Rightarrow> merge (m(k \<mapsto> v)) other keep)"

section \<open>Escaping\<close>

text \<open>\<open>str::replace\<close> with a non-empty pattern: occurrences from the left that do not overlap.\<close>

function replace :: "string \<Rightarrow> string \<Rightarrow> string \<Rightarrow> string" where
  "replace p r s =
     (if s = [] \<or> p = [] then s
      else if starts_with p s then r @ replace p r (drop (length p) s)
      else hd s # replace p r (tl s))"
  by pat_completeness auto
termination
  by (relation "measure (\<lambda>(p, r, s). length s)") auto

declare replace.simps [simp del]

definition encode_value :: "string \<Rightarrow> string" where
  "encode_value v = replace [CHR 0x22] [CHR 0x5C, CHR 0x22] (replace [CHR 0x5C] [CHR 0x5C, CHR 0x5C] v)"

definition decode_value :: "string \<Rightarrow> string" where
  "decode_value v = replace [CHR 0x5C, CHR 0x22] [CHR 0x22] (replace [CHR 0x5C, CHR 0x5C] [CHR 0x5C] v)"

section \<open>Display and parsing\<close>

fun show_map :: "(string \<times> string) list \<Rightarrow> string" where
  "show_map [] = []"
| "show_map ((k, v) # kvs) =
     k @ [CHR ''='', CHR 0x22] @ encode_value v @ [CHR 0x22] @ (if kvs = [] then [] else '','' @ show_map kvs)"

datatype map_parse_error =
    MissingEqualsAfterKey string
  | KeyMustStartWithAlphabeticCharacter string
  | MissingClosingQuoteForValue

text \<open>The scan for the closing quote: the index of a quote after an even number of backslashes.\<close>

fun closing_quote :: "nat \<Rightarrow> nat \<Rightarrow> string \<Rightarrow> nat option" where
  "closing_quote i backslash_cnt [] = None"
| "closing_quote i backslash_cnt (b # bs) =
     (if b = CHR 0x5C then closing_quote (i + 1) (backslash_cnt + 1) bs
      else if b = CHR 0x22 \<and> even backslash_cnt then Some i
      else closing_quote (i + 1) 0 bs)"

definition parse_value :: "string \<Rightarrow> map_parse_error + (string \<times> string)" where
  "parse_value tail =
     (case strip_prefix [CHR 0x22] tail of
        Some tail \<Rightarrow>
          (case closing_quote 0 0 tail of
             None \<Rightarrow> Inl MissingClosingQuoteForValue
           | Some i \<Rightarrow>
               (let value = take i tail;
                    t1 = trim_start (drop 1 (drop i tail));
                    t2 = trim_start (case strip_prefix '','' t1 of Some t \<Rightarrow> t | None \<Rightarrow> t1)
                in Inr (value, t2)))
      | None \<Rightarrow>
          (case split_once '','' tail of
             Some (value, tail) \<Rightarrow> Inr (trim value, tail)
           | None \<Rightarrow> Inr (trim tail, [])))"

lemma length_trim_start: "length (trim_start s) \<le> length s"
  by (simp add: trim_start_def length_dropWhile_le)

lemma length_trim: "length (trim s) \<le> length s"
  unfolding trim_def trim_end_def
  using length_trim_start [of s] by (simp add: length_dropWhile_le order_trans [OF length_dropWhile_le])

lemma length_parse_value: "parse_value t = Inr (v, t') \<Longrightarrow> length t' \<le> length t"
proof -
  have sp: "length u \<le> length x" if "strip_prefix p x = Some u" for p x u
    using that by (auto simp: strip_prefix_def split: if_splits)
  have so: "length b \<le> length x" if "split_once p x = Some (a, b)" for p x a b
    using split_once_SomeD [OF that] by simp
  have quoted: "length (trim_start (case strip_prefix '','' (trim_start (drop (Suc i) u)) of
      Some t \<Rightarrow> t | None \<Rightarrow> trim_start (drop (Suc i) u))) \<le> length u" for i u
    using length_trim_start [of "drop (Suc i) u"] length_trim_start
    by (auto split: option.split dest!: sp intro!: order_trans [OF length_trim_start])
  assume pv: "parse_value t = Inr (v, t')"
  show ?thesis
  proof (cases "strip_prefix [CHR 0x22] t")
    case None
    with pv show ?thesis by (auto simp: parse_value_def split: option.splits dest!: so)
  next
    case (Some u)
    with pv obtain i where cq: "closing_quote 0 0 u = Some i"
      by (auto simp: parse_value_def split: option.splits)
    with pv Some have "t' = trim_start (case strip_prefix '','' (trim_start (drop (Suc i) u)) of
      Some t \<Rightarrow> t | None \<Rightarrow> trim_start (drop (Suc i) u))"
      by (simp add: parse_value_def Let_def)
    with quoted [of i u] sp [OF Some] show ?thesis by simp
  qed
qed

function parse_map :: "net_map \<Rightarrow> string \<Rightarrow> map_parse_error + net_map" where
  "parse_map m s =
     (if s = [] then Inr m
      else case split_once ''='' s of
             None \<Rightarrow> Inl (MissingEqualsAfterKey s)
           | Some (key, tail) \<Rightarrow>
               (let key = trim key in
                if key = [] \<or> \<not> is_alphabetic (hd key) then Inl (KeyMustStartWithAlphabeticCharacter key)
                else (case parse_value (trim_start tail) of
                        Inl e \<Rightarrow> Inl e
                      | Inr (value, tail) \<Rightarrow> parse_map (m(key \<mapsto> decode_value value)) (trim tail))))"
  by pat_completeness auto
termination
proof (relation "measure (\<lambda>(m, s). length s)", goal_cases)
  case (2 m s x key tail key' y v tail')
  have "length s = length key + 1 + length tail"
    using split_once_SomeD [of "''=''" s key tail] 2 by simp
  moreover have "length tail' \<le> length (trim_start tail)" 
    using length_parse_value [of "trim_start tail" v tail'] 2 by simp
  ultimately show ?case using length_trim [of tail'] length_trim_start [of tail] by simp
qed simp

declare parse_map.simps [simp del]

definition map_from_str :: "string \<Rightarrow> map_parse_error + net_map" where
  "map_from_str s = parse_map Map.empty (trim s)"

section \<open>Escaping is undone\<close>

definition escape :: "char \<Rightarrow> string" where
  "escape c = (if c = CHR 0x5C then [CHR 0x5C, CHR 0x5C] else if c = CHR 0x22 then [CHR 0x5C, CHR 0x22] else [c])"

lemma replace_char: "replace [x] r s = concat (map (\<lambda>c. if c = x then r else [c]) s)"
  by (induction s) (simp_all add: replace.simps [of "[x]"] starts_with_single)

lemma encode_value_escape: "encode_value v = concat (map escape v)"
  by (induction v) (simp_all add: encode_value_def replace_char escape_def)

lemma replace_skip: "p \<noteq> [] \<Longrightarrow> \<not> starts_with p (c # s) \<Longrightarrow> replace p r (c # s) = c # replace p r s"
  by (simp add: replace.simps [of p r "c # s"])

lemma replace_hit: "p \<noteq> [] \<Longrightarrow> starts_with p s \<Longrightarrow> s \<noteq> [] \<Longrightarrow> replace p r s = r @ replace p r (drop (length p) s)"
  by (simp add: replace.simps [of p r s])

lemma starts_with_two: "starts_with [x, y] (c # s) \<longleftrightarrow> c = x \<and> s \<noteq> [] \<and> hd s = y"
  by (cases s) (auto simp: starts_with_def)

lemma decode_encode [simp]: "decode_value (encode_value v) = v"
proof -
  let ?half = "\<lambda>c. if c = CHR 0x22 then [CHR 0x5C, CHR 0x22] else [c]"
  have 1: "replace [CHR 0x5C, CHR 0x5C] [CHR 0x5C] (concat (map escape v)) = concat (map ?half v)"
    by (induction v) (simp_all add: escape_def replace_skip replace_hit starts_with_two replace.simps [of _ _ "[]"])
  have hd_half: "concat (map ?half w) \<noteq> [] \<Longrightarrow> hd (concat (map ?half w)) \<noteq> CHR 0x22" for w
    by (cases w) auto
  have 2: "replace [CHR 0x5C, CHR 0x22] [CHR 0x22] (concat (map ?half v)) = v"
  proof (induction v)
    case (Cons c w)
    show ?case
    proof (cases "c = CHR 0x22")
      case True
      with Cons show ?thesis by (simp add: replace_hit starts_with_two)
    next
      case False
      have "\<not> starts_with [CHR 0x5C, CHR 0x22] (c # concat (map ?half w))"
        unfolding starts_with_two using hd_half [of w] by blast
      with Cons False show ?thesis by (simp add: replace_skip)
    qed
  qed (simp add: replace.simps)
  show ?thesis unfolding decode_value_def encode_value_escape 1 2 ..
qed

lemma closing_quote_encoded:
  "even n \<Longrightarrow> closing_quote i n (concat (map escape v) @ CHR 0x22 # t) = Some (i + length (concat (map escape v)))"
  by (induction v arbitrary: i n) (auto simp: escape_def)

section \<open>Reading back a map\<close>

definition key_ok :: "string \<Rightarrow> bool" where
  "key_ok k \<longleftrightarrow> k \<noteq> [] \<and> is_alphabetic (hd k) \<and> \<not> is_white (last k) \<and> CHR ''='' \<notin> set k"

lemma alphabetic_not_white: "is_alphabetic c \<Longrightarrow> \<not> is_white c"
  by (auto simp: char_class_defs)

lemma key_ok_trim: "key_ok k \<Longrightarrow> trim k = k"
  by (auto simp: key_ok_def intro!: trim_nonwhite dest: alphabetic_not_white)

lemma show_map_ends:
  "kvs \<noteq> [] \<Longrightarrow> \<forall>k \<in> set (map fst kvs). key_ok k \<Longrightarrow>
     show_map kvs \<noteq> [] \<and> is_alphabetic (hd (show_map kvs)) \<and> last (show_map kvs) = CHR 0x22"
  by (induction kvs rule: show_map.induct) (auto simp: key_ok_def)

lemma trim_show_map: "\<forall>k \<in> set (map fst kvs). key_ok k \<Longrightarrow> trim (show_map kvs) = show_map kvs \<and> trim_start (show_map kvs) = show_map kvs"
  using show_map_ends [of kvs]
  by (cases "kvs = []") (auto intro!: trim_nonwhite trim_start_nonwhite dest: alphabetic_not_white simp: is_white_def)

lemma parse_value_shown:
  assumes "\<forall>k \<in> set (map fst kvs). key_ok k"
  shows "parse_value (CHR 0x22 # encode_value v @ [CHR 0x22] @ (if kvs = [] then [] else '','' @ show_map kvs)) =
     Inr (encode_value v, show_map kvs)"
proof -
  let ?r = "if kvs = [] then [] else '','' @ show_map kvs"
  have "closing_quote 0 0 (encode_value v @ CHR 0x22 # ?r) = Some (length (encode_value v))"
    using closing_quote_encoded [of 0 0 v ?r] by (simp add: encode_value_escape)
  moreover have "trim_start ?r = ?r" by (simp add: trim_start_def is_white_def)
  moreover have "trim_start (case strip_prefix '','' ?r of Some t \<Rightarrow> t | None \<Rightarrow> ?r) = show_map kvs"
    using trim_show_map [OF assms] by (auto simp: strip_prefix_def starts_with_def trim_start_def)
  ultimately show ?thesis by (simp add: parse_value_def strip_prefix_def starts_with_def)
qed

lemma show_map_Cons: "show_map ((k, v) # kvs) \<noteq> []"
  by simp

lemma parse_map_shown:
  "\<forall>k \<in> set (map fst kvs). key_ok k \<Longrightarrow> distinct (map fst kvs) \<Longrightarrow> dom m \<inter> set (map fst kvs) = {} \<Longrightarrow>
     parse_map m (show_map kvs) = Inr (m ++ map_of kvs)"
proof (induction kvs arbitrary: m rule: show_map.induct)
  case 1
  then show ?case by (simp add: parse_map.simps)
next
  case (2 k v kvs)
  let ?t = "CHR 0x22 # encode_value v @ [CHR 0x22] @ (if kvs = [] then [] else '','' @ show_map kvs)"
  have k: "key_ok k" using 2 by simp
  have sp: "split_once ''='' (show_map ((k, v) # kvs)) = Some (k, ?t)"
    using split_once_char [of "CHR ''=''" k ?t] k by (simp add: key_ok_def)
  have pv: "parse_value (trim_start ?t) = Inr (encode_value v, show_map kvs)"
    using parse_value_shown [of kvs v] "2.prems"(1) by (simp add: trim_start_def is_white_def)
  have "parse_map m (show_map ((k, v) # kvs)) = parse_map (m(k \<mapsto> v)) (show_map kvs)"
    using k sp pv trim_show_map [of kvs] "2.prems"(1)
    by (subst parse_map.simps) (simp add: key_ok_trim key_ok_def [of k] show_map_Cons del: show_map.simps)
  also have "\<dots> = Inr (m(k \<mapsto> v) ++ map_of kvs)"
    using 2 by (cases "kvs = []") (auto simp: parse_map.simps)
  also have "m(k \<mapsto> v) ++ map_of kvs = m ++ map_of ((k, v) # kvs)"
    using "2.prems"(2) by (simp add: map_add_upd_left dom_map_of_conv_image_fst)
  finally show ?case .
qed

lemma merge_entries:
  "distinct (map fst kvs) \<Longrightarrow>
     merge m kvs keep = (if keep then map_of kvs ++ m else m ++ map_of kvs)"
proof (induction m kvs keep rule: merge.induct)
  case (1 m keep)
  then show ?case by simp
next
  case (2 m k v other keep)
  have k: "k \<notin> dom (map_of other)" using "2.prems" by (simp add: dom_map_of_conv_image_fst)
  have d: "distinct (map fst other)" using "2.prems" by simp
  have left: "m(k \<mapsto> v) ++ map_of other = m ++ map_of ((k, v) # other)"
    using k by (simp only: map_of.simps fst_conv snd_conv map_add_upd map_add_upd_left simp_thms)
  show ?case
  proof (cases "m k")
    case None
    have "merge (m(k \<mapsto> v)) other keep = (if keep then map_of other ++ m(k \<mapsto> v) else m(k \<mapsto> v) ++ map_of other)"
      by (rule "2.IH"(1) [OF None d])
    moreover have "map_of other ++ m(k \<mapsto> v) = map_of ((k, v) # other) ++ m"
      using None by (simp only: map_of.simps fst_conv snd_conv map_add_upd map_add_upd_left domIff not_None_eq simp_thms)
    ultimately show ?thesis using None left by (simp only: merge.simps option.case)
  next
    case (Some x)
    have "map_of ((k, v) # other) ++ m = map_of other ++ m"
      using Some by (auto simp: map_add_def fun_eq_iff split: option.split)
    with "2.IH"(2) [OF Some _ d] "2.IH"(3) [OF Some _ d] left Some show ?thesis
      by (cases keep) (simp_all only: merge.simps option.case if_True if_False simp_thms)
  qed
qed

section \<open>Properties\<close>

text \<open>
  C17: a map is read back from its text in whatever order the entries are displayed, for arbitrary
  values, quotes and backslashes included, as long as the keys begin with a letter, do not end in
  white space and contain no equals sign.
\<close>

theorem map_text_roundtrip:
  assumes "entries kvs m" and "\<forall>k \<in> dom m. key_ok k"
  shows "map_from_str (show_map kvs) = Inr m"
proof -
  have k: "\<forall>k \<in> set (map fst kvs). key_ok k"
    using assms by (auto simp: entries_def dom_map_of_conv_image_fst)
  with parse_map_shown [of kvs Map.empty] trim_show_map [of kvs] assms(1)
  show ?thesis by (simp add: map_from_str_def entries_def)
qed

theorem map_text_roundtrip_witness:
  "map_from_str (show_map [(''key'', [CHR 0x5C, CHR 0x22]), (''b'', '', x=1'')]) =
     Inr [''key'' \<mapsto> [CHR 0x5C, CHR 0x22], ''b'' \<mapsto> '', x=1'']"
  by (rule map_text_roundtrip) (auto simp: entries_def key_ok_def char_class_defs)

text \<open>
  C18: merging takes every key of either map and resolves a conflict as documented, in favour of
  the map merged into when \<open>keep\<close> is set and of the other one otherwise, in whatever order the
  other map is visited.
\<close>

theorem merge_resolves:
  assumes "entries kvs other"
  shows "merge m kvs keep = (if keep then other ++ m else m ++ other)"
  using merge_entries [of kvs m keep] assms by (simp add: entries_def)

theorem merge_resolves_witness:
  "merge [''a'' \<mapsto> ''hello'', ''b'' \<mapsto> ''world''] [(''c'', ''bar''), (''a'', ''foo'')] True ''a'' = Some ''hello''"
  using merge_resolves [of "[(''c'', ''bar''), (''a'', ''foo'')]" "[''c'' \<mapsto> ''bar'', ''a'' \<mapsto> ''foo'']"
      "[''a'' \<mapsto> ''hello'', ''b'' \<mapsto> ''world'']" True]
  by (auto simp: entries_def fun_eq_iff)

end
