(* ===== verification/Spec2Isabelle.thy ===== *)
theory Spec2Isabelle
  imports Prelude Frame Backup Codec Transport Synchronize Handshake Auth Keychain Connection Text Address Host Destination Ports Version NetMap
begin

text \<open>Header to be written.\<close>

end
